theory Spec2Isabelle
  imports Main "HOL-Library.Sublist"
begin

section \<open>Data model of \<^verbatim>\<open>alpaca_trade_api/stream2.py\<close>\<close>

text \<open>
  The module defines one class, \<^verbatim>\<open>StreamConn\<close>, that multiplexes two websocket
  connections (trading events and market data) and a polygon/NATS feed client behind one
  \<^verbatim>\<open>subscribe\<close> and one handler table.

  The websocket library, the polygon client, the regular-expression engine, the JSON
  decoder and the user's handler coroutines are outside the module. They are modelled as
  an environment: every call into them is appended to a trace, and an oracle that reads
  the trace (ending with the call just made) decides whether the call returns or raises.
  Quantifying over the oracle covers every behaviour of the network and of the handlers.
  Each coroutine of the class is modelled as one atomic state transformer; the read loops
  started by \<^verbatim>\<open>asyncio.ensure_future\<close> are kept in the world as pending loops and run as
  separate transitions.
\<close>

type_synonym sock = nat
type_synonym pattern = string

text \<open>A decoded JSON document, as \<^verbatim>\<open>json.loads\<close> returns it.\<close>

datatype json =
    JNull
  | JBool bool
  | JNum int
  | JStr string
  | JArr "json list"
  | JObj "(string \<times> json) list"

text \<open>\<^verbatim>\<open>entity.Account(raw)\<close> and \<^verbatim>\<open>entity.Entity(raw)\<close>: wrappers around the decoded body.\<close>

datatype entity = Account json | Entity json

text \<open>
  A callable handed to \<^verbatim>\<open>register\<close>: a coroutine function or an ordinary one
  (\<^verbatim>\<open>asyncio.iscoroutinefunction\<close> tells them apart).
\<close>

datatype func = Coroutine nat | Plain nat

datatype conn_class = EventsClass | DataClass | FeedClass

text \<open>The exceptions the module raises or lets through.\<close>

datatype error =
    ConnectError
  | SendError
  | RecvError
  | DecodeError
  | AuthValueError json
  | HandlerValueError
  | KeyError string
  | PatternKeyError pattern
  | TypeError
  | AttributeError
  | HandlerError func
  | FeedError

text \<open>
  What \<^verbatim>\<open>ws.recv()\<close> delivers, seen through \<^verbatim>\<open>r.decode('utf-8')\<close> and
  \<^verbatim>\<open>json.loads(r)\<close>: a payload on which one of the two raises, or the decoded document.
\<close>

datatype frame = Undecodable | Decoded json

text \<open>Every call that leaves the module.\<close>

datatype event =
    WsConnect string
  | WsSend sock json
  | WsRecv sock
  | WsClose sock
  | Spawn sock
  | Call func string entity
  | CallNats func string json
  | FeedNew string
  | FeedRegister pattern
  | FeedConnect
  | FeedSubscribe "string list"
  | FeedClose

record env =
  rematch :: "pattern \<Rightarrow> string \<Rightarrow> bool"
  succeeds :: "event list \<Rightarrow> bool"
  received :: "event list \<Rightarrow> frame option"

text \<open>The fields of a \<^verbatim>\<open>StreamConn\<close> object (\<^verbatim>\<open>_ws\<close> is \<open>ws\<close>, and so on).\<close>

record stream_conn =
  key_id :: string
  secret_key :: string
  endpoint :: string
  data_endpoint :: string
  handlers :: "(pattern \<times> func) list"
  base_url :: string
  data_url :: string
  ws :: "sock option"
  data_ws :: "sock option"
  polygon :: "string option"

text \<open>
  The world outside the object: the trace, the next socket the library will hand out,
  which call site opened each socket, the sockets on which \<^verbatim>\<open>close()\<close> has run, and
  the sockets whose read loop \<^verbatim>\<open>_consume_msg\<close> is scheduled.
\<close>

record world =
  trace :: "event list"
  fresh :: sock
  opened :: "(sock \<times> conn_class) list"
  closed_socks :: "sock list"
  loops :: "sock list"
  feed_closed :: bool

type_synonym state = "stream_conn \<times> world"
type_synonym 'a io = "state \<Rightarrow> (error + 'a) \<times> state"

definition ret :: "'a \<Rightarrow> 'a io" where
  "ret a s = (Inr a, s)"

definition raise :: "error \<Rightarrow> 'a io" where
  "raise e s = (Inl e, s)"

definition bind :: "'a io \<Rightarrow> ('a \<Rightarrow> 'b io) \<Rightarrow> 'b io" where
  "bind m f s = (case m s of (Inl e, s') \<Rightarrow> (Inl e, s') | (Inr a, s') \<Rightarrow> f a s')"

definition lift :: "error + 'a \<Rightarrow> 'a io" where
  "lift r s = (r, s)"

definition log :: "event \<Rightarrow> world \<Rightarrow> world" where
  "log e w = w\<lparr>trace := trace w @ [e]\<rparr>"

section \<open>Channel classification (\<^verbatim>\<open>subscribe\<close>, lines 94--103)\<close>

definition startswith :: "string \<Rightarrow> string list \<Rightarrow> bool" where
  "startswith c ps = (\<exists>p \<in> set ps. prefix p c)"

definition nats_prefixes :: "string list" where
  "nats_prefixes = [''Q.'', ''T.'', ''A.'', ''AM.'']"

definition data_prefixes :: "string list" where
  "data_prefixes = [''bars/'', ''iex/'', ''sip/'']"

definition classify :: "string \<Rightarrow> conn_class" where
  "classify c =
     (if startswith c nats_prefixes then FeedClass
      else if startswith c data_prefixes then DataClass
      else EventsClass)"

text \<open>
  The loop over \<^verbatim>\<open>channels\<close>, with the three lists it appends to as accumulators
  \<open>(ws_channels, data_channels, nats_channels)\<close>.
\<close>

fun partition_channels ::
  "string list \<Rightarrow> string list \<times> string list \<times> string list
     \<Rightarrow> string list \<times> string list \<times> string list" where
  "partition_channels [] acc = acc"
| "partition_channels (c # cs) (ws_channels, data_channels, nats_channels) =
     (if startswith c nats_prefixes
        then partition_channels cs (ws_channels, data_channels, nats_channels @ [c])
      else if startswith c data_prefixes
        then partition_channels cs (ws_channels, data_channels @ [c], nats_channels)
      else partition_channels cs (ws_channels @ [c], data_channels, nats_channels))"

section \<open>Python operations on decoded JSON\<close>

text \<open>\<^verbatim>\<open>k in msg\<close>: key test on a dict, element test on a list, substring test on a str.\<close>

fun py_contains :: "string \<Rightarrow> json \<Rightarrow> error + bool" where
  "py_contains k (JObj kvs) = Inr (k \<in> set (map fst kvs))"
| "py_contains k (JArr xs) = Inr (JStr k \<in> set xs)"
| "py_contains k (JStr s) = Inr (sublist k s)"
| "py_contains k _ = Inl TypeError"

text \<open>\<^verbatim>\<open>msg[k]\<close> with a str key: only a dict accepts it, and a missing key raises.\<close>

fun py_getitem :: "json \<Rightarrow> string \<Rightarrow> error + json" where
  "py_getitem (JObj kvs) k = (case map_of kvs k of None \<Rightarrow> Inl (KeyError k) | Some v \<Rightarrow> Inr v)"
| "py_getitem _ k = Inl TypeError"

text \<open>\<^verbatim>\<open>msg.get(k)\<close>: only a dict has the method; a missing key gives \<^verbatim>\<open>None\<close>.\<close>

fun py_get :: "json \<Rightarrow> string \<Rightarrow> error + json" where
  "py_get (JObj kvs) k = (case map_of kvs k of None \<Rightarrow> Inr JNull | Some v \<Rightarrow> Inr v)"
| "py_get _ k = Inl AttributeError"

definition auth_req :: "string \<Rightarrow> string \<Rightarrow> json" where
  "auth_req key secret =
     JObj [(''action'', JStr ''authenticate''),
           (''data'', JObj [(''key_id'', JStr key), (''secret_key'', JStr secret)])]"

definition listen_req :: "string list \<Rightarrow> json" where
  "listen_req streams =
     JObj [(''action'', JStr ''listen''),
           (''data'', JObj [(''streams'', JArr (map JStr streams))])]"

section \<open>Calls into the libraries\<close>

text \<open>
  \<^verbatim>\<open>websockets.connect(url)\<close>. The class argument records the call site
  (\<^verbatim>\<open>_ensure_ws\<close> or \<^verbatim>\<open>_ensure_data_ws\<close>) for the socket it returns.
\<close>

definition ws_connect :: "env \<Rightarrow> conn_class \<Rightarrow> string \<Rightarrow> sock io" where
  "ws_connect env cls url = (\<lambda>(c, w).
     let w1 = log (WsConnect url) w in
     if succeeds env (trace w1)
     then (Inr (fresh w1),
           (c, w1\<lparr>fresh := Suc (fresh w1), opened := opened w1 @ [(fresh w1, cls)]\<rparr>))
     else (Inl ConnectError, (c, w1)))"

definition ws_send :: "env \<Rightarrow> sock \<Rightarrow> json \<Rightarrow> unit io" where
  "ws_send env s msg = (\<lambda>(c, w).
     let w1 = log (WsSend s msg) w in
     if succeeds env (trace w1) then (Inr (), (c, w1)) else (Inl SendError, (c, w1)))"

text \<open>\<^verbatim>\<open>r = await ws.recv()\<close>, the \<^verbatim>\<open>decode\<close> of a bytes payload and \<^verbatim>\<open>json.loads(r)\<close>.\<close>

definition ws_recv_json :: "env \<Rightarrow> sock \<Rightarrow> json io" where
  "ws_recv_json env s = (\<lambda>(c, w).
     let w1 = log (WsRecv s) w in
     case received env (trace w1) of
       None \<Rightarrow> (Inl RecvError, (c, w1))
     | Some Undecodable \<Rightarrow> (Inl DecodeError, (c, w1))
     | Some (Decoded msg) \<Rightarrow> (Inr msg, (c, w1)))"

text \<open>\<^verbatim>\<open>await ws.close()\<close>: the library's close completes without raising.\<close>

definition ws_close :: "sock \<Rightarrow> unit io" where
  "ws_close s = (\<lambda>(c, w).
     (Inr (), (c, (log (WsClose s) w)\<lparr>closed_socks := s # closed_socks w\<rparr>)))"

text \<open>\<^verbatim>\<open>asyncio.ensure_future(self._consume_msg(ws))\<close>: the loop is scheduled, not run.\<close>

definition spawn :: "sock \<Rightarrow> unit io" where
  "spawn s = (\<lambda>(c, w). (Inr (), (c, (log (Spawn s) w)\<lparr>loops := loops w @ [s]\<rparr>)))"

text \<open>\<^verbatim>\<open>await handler(self, channel, ent)\<close>.\<close>

definition call_handler :: "env \<Rightarrow> func \<Rightarrow> string \<Rightarrow> entity \<Rightarrow> unit io" where
  "call_handler env handler channel ent = (\<lambda>(c, w).
     let w1 = log (Call handler channel ent) w in
     if succeeds env (trace w1) then (Inr (), (c, w1))
     else (Inl (HandlerError handler), (c, w1)))"


text \<open>A call on the polygon client that may raise.\<close>

definition feed_call :: "env \<Rightarrow> event \<Rightarrow> unit io" where
  "feed_call env e = (\<lambda>(c, w).
     let w1 = log e w in
     if succeeds env (trace w1) then (Inr (), (c, w1)) else (Inl FeedError, (c, w1)))"

section \<open>The methods of \<^verbatim>\<open>StreamConn\<close>\<close>

text \<open>
  \<^verbatim>\<open>__init__\<close>, on the credentials and URLs already resolved by \<^verbatim>\<open>get_credentials\<close>,
  \<^verbatim>\<open>get_base_url\<close> and \<^verbatim>\<open>get_data_url\<close>. \<^verbatim>\<open>re.sub(r'^http', 'ws', url)\<close> rewrites a
  leading \<open>http\<close> only.
\<close>

definition http_to_ws :: "string \<Rightarrow> string" where
  "http_to_ws url = (if prefix ''http'' url then ''ws'' @ drop 4 url else url)"

definition init :: "string \<Rightarrow> string \<Rightarrow> string \<Rightarrow> string \<Rightarrow> stream_conn" where
  "init key secret base data =
     \<lparr>key_id = key, secret_key = secret,
      endpoint = http_to_ws base @ ''/stream'',
      data_endpoint = http_to_ws data @ ''/stream'',
      handlers = [],
      base_url = http_to_ws base,
      data_url = http_to_ws data,
      ws = None, data_ws = None, polygon = None\<rparr>"

definition world0 :: world where
  "world0 = \<lparr>trace = [], fresh = 0, opened = [], closed_socks = [], loops = [],
             feed_closed = False\<rparr>"

definition cast :: "string \<Rightarrow> json \<Rightarrow> entity" where
  "cast channel msg = (if channel = ''account_updates'' then Account msg else Entity msg)"

text \<open>
  \<^verbatim>\<open>_dispatch\<close>: the loop over \<^verbatim>\<open>self._handlers.items()\<close>. \<^verbatim>\<open>msg['data']\<close> is
  evaluated, and may raise, at each matching entry.
\<close>

fun dispatch_loop :: "env \<Rightarrow> string \<Rightarrow> json \<Rightarrow> (pattern \<times> func) list \<Rightarrow> unit io" where
  "dispatch_loop env channel msg [] = ret ()"
| "dispatch_loop env channel msg ((pat, handler) # rest) =
     (if rematch env pat channel
      then bind (lift (py_getitem msg ''data'')) (\<lambda>d.
           bind (call_handler env handler channel (cast channel d)) (\<lambda>_.
           dispatch_loop env channel msg rest))
      else dispatch_loop env channel msg rest)"

definition dispatch :: "env \<Rightarrow> string \<Rightarrow> json \<Rightarrow> unit io" where
  "dispatch env channel msg = (\<lambda>(c, w). dispatch_loop env channel msg (handlers c) (c, w))"



text \<open>
  The test of line 37, \<^verbatim>\<open>'data' not in msg or msg['data']['status'] != 'authorized'\<close>,
  and the \<^verbatim>\<open>ValueError\<close> that carries \<^verbatim>\<open>msg\<close>.
\<close>

definition check_authorized :: "json \<Rightarrow> error + unit" where
  "check_authorized msg =
     (case py_contains ''data'' msg of
        Inl e \<Rightarrow> Inl e
      | Inr has_data \<Rightarrow>
          if \<not> has_data then Inl (AuthValueError msg)
          else (case py_getitem msg ''data'' of
                  Inl e \<Rightarrow> Inl e
                | Inr d \<Rightarrow>
                    (case py_getitem d ''status'' of
                       Inl e \<Rightarrow> Inl e
                     | Inr status \<Rightarrow>
                         if status \<noteq> JStr ''authorized'' then Inl (AuthValueError msg)
                         else Inr ())))"

text \<open>\<^verbatim>\<open>_connect\<close>.\<close>

definition connect :: "env \<Rightarrow> sock \<Rightarrow> unit io" where
  "connect env s =
     bind (\<lambda>(c, w). ws_send env s (auth_req (key_id c) (secret_key c)) (c, w)) (\<lambda>_.
     bind (ws_recv_json env s) (\<lambda>msg.
     bind (lift (check_authorized msg)) (\<lambda>_.
     bind (\<lambda>(c, w). (Inr (), (c\<lparr>ws := Some s\<rparr>, w))) (\<lambda>_.
     bind (dispatch env ''authorized'' msg) (\<lambda>_.
     spawn s)))))"

text \<open>
  \<^verbatim>\<open>_consume_msg\<close>. One pass through the body of \<^verbatim>\<open>while True\<close>; a \<^verbatim>\<open>stream\<close> value
  that is not a str makes \<^verbatim>\<open>pat.match\<close> raise at the first table entry.
\<close>

definition dispatch_key :: "env \<Rightarrow> json \<Rightarrow> json \<Rightarrow> unit io" where
  "dispatch_key env stream msg =
     (case stream of
        JStr channel \<Rightarrow> dispatch env channel msg
      | _ \<Rightarrow> (\<lambda>(c, w). if handlers c = [] then (Inr (), (c, w)) else (Inl TypeError, (c, w))))"

definition consume_body :: "env \<Rightarrow> sock \<Rightarrow> unit io" where
  "consume_body env s =
     bind (ws_recv_json env s) (\<lambda>msg.
     bind (lift (py_get msg ''stream'')) (\<lambda>stream.
     if stream \<noteq> JNull then dispatch_key env stream msg else ret ()))"

text \<open>The \<^verbatim>\<open>finally\<close> block, after which the task is over.\<close>

definition consume_finally :: "sock \<Rightarrow> state \<Rightarrow> state" where
  "consume_finally s = (\<lambda>(c, w).
     let w1 = (log (WsClose s) w)\<lparr>closed_socks := s # closed_socks w,
                                  loops := removeAll s (loops w)\<rparr>
     in if data_ws c = Some s then (c\<lparr>data_ws := None\<rparr>, w1) else (c\<lparr>ws := None\<rparr>, w1))"

text \<open>
  The loop with fuel: \<open>None\<close> while it is still receiving after \<open>n\<close> passes, otherwise the
  exception that ended it and the state the \<^verbatim>\<open>finally\<close> block leaves.
\<close>

fun consume_msg :: "env \<Rightarrow> sock \<Rightarrow> nat \<Rightarrow> state \<Rightarrow> (error \<times> state) option" where
  "consume_msg env s 0 st = None"
| "consume_msg env s (Suc n) st =
     (case consume_body env s st of
        (Inl e, st') \<Rightarrow> Some (e, consume_finally s st')
      | (Inr _, st') \<Rightarrow> consume_msg env s n st')"

text \<open>\<^verbatim>\<open>_ensure_nats\<close>, \<^verbatim>\<open>_ensure_ws\<close>, \<^verbatim>\<open>_ensure_data_ws\<close>.\<close>

definition ensure_nats :: "env \<Rightarrow> unit io" where
  "ensure_nats env = (\<lambda>(c, w).
     if polygon c \<noteq> None then (Inr (), (c, w))
     else
       let key = (if sublist ''staging'' (base_url c) then key_id c @ ''-staging''
                  else key_id c)
       in feed_call env FeedConnect
            (c\<lparr>polygon := Some key\<rparr>, log (FeedRegister ''.*'') (log (FeedNew key) w)))"

definition ensure_ws :: "env \<Rightarrow> unit io" where
  "ensure_ws env = (\<lambda>(c, w).
     if ws c \<noteq> None then (Inr (), (c, w))
     else
       bind (ws_connect env EventsClass (endpoint c)) (\<lambda>s.
       bind (connect env s) (\<lambda>_.
       (\<lambda>(c, w). (Inr (), (c\<lparr>ws := Some s\<rparr>, w))))) (c, w))"

definition ensure_data_ws :: "env \<Rightarrow> unit io" where
  "ensure_data_ws env = (\<lambda>(c, w).
     if data_ws c \<noteq> None then (Inr (), (c, w))
     else
       bind (ws_connect env DataClass (data_endpoint c)) (\<lambda>s.
       bind (connect env s) (\<lambda>_.
       (\<lambda>(c, w). (Inr (), (c\<lparr>data_ws := Some s\<rparr>, w))))) (c, w))"

text \<open>
  \<^verbatim>\<open>subscribe\<close>: the three \<^verbatim>\<open>if len(...) > 0\<close> blocks, in the order of the source.
  \<^verbatim>\<open>self._ws.send\<close> on a field that is \<^verbatim>\<open>None\<close> raises \<^verbatim>\<open>AttributeError\<close>.
\<close>

definition subscribe_ws :: "env \<Rightarrow> string list \<Rightarrow> unit io" where
  "subscribe_ws env ws_channels =
     (if length ws_channels > 0
      then bind (ensure_ws env) (\<lambda>_. (\<lambda>(c, w).
             case ws c of
               None \<Rightarrow> (Inl AttributeError, (c, w))
             | Some s \<Rightarrow> ws_send env s (listen_req ws_channels) (c, w)))
      else ret ())"

definition subscribe_data :: "env \<Rightarrow> string list \<Rightarrow> unit io" where
  "subscribe_data env data_channels =
     (if length data_channels > 0
      then bind (ensure_data_ws env) (\<lambda>_. (\<lambda>(c, w).
             case data_ws c of
               None \<Rightarrow> (Inl AttributeError, (c, w))
             | Some s \<Rightarrow> ws_send env s (listen_req data_channels) (c, w)))
      else ret ())"

definition subscribe_nats :: "env \<Rightarrow> string list \<Rightarrow> unit io" where
  "subscribe_nats env nats_channels =
     (if length nats_channels > 0
      then bind (ensure_nats env) (\<lambda>_. (\<lambda>(c, w).
             case polygon c of
               None \<Rightarrow> (Inl AttributeError, (c, w))
             | Some _ \<Rightarrow> feed_call env (FeedSubscribe nats_channels) (c, w)))
      else ret ())"

definition subscribe :: "env \<Rightarrow> string list \<Rightarrow> unit io" where
  "subscribe env channels =
     (case partition_channels channels ([], [], []) of
        (ws_channels, data_channels, nats_channels) \<Rightarrow>
          bind (subscribe_ws env ws_channels) (\<lambda>_.
          bind (subscribe_data env data_channels) (\<lambda>_.
          subscribe_nats env nats_channels)))"

text \<open>\<^verbatim>\<open>close\<close>: no field is assigned.\<close>

definition close :: "env \<Rightarrow> unit io" where
  "close env =
     bind (\<lambda>(c, w). case ws c of None \<Rightarrow> (Inr (), (c, w)) | Some s \<Rightarrow> ws_close s (c, w)) (\<lambda>_.
     bind (\<lambda>(c, w). case data_ws c of None \<Rightarrow> (Inr (), (c, w)) | Some s \<Rightarrow> ws_close s (c, w))
       (\<lambda>_.
     (\<lambda>(c, w). case polygon c of
        None \<Rightarrow> (Inr (), (c, w))
      | Some _ \<Rightarrow>
          (case feed_call env FeedClose (c, w) of
             (Inl e, st) \<Rightarrow> (Inl e, st)
           | (Inr u, (c', w')) \<Rightarrow> (Inr u, (c', w'\<lparr>feed_closed := True\<rparr>))))))"

text \<open>
  \<^verbatim>\<open>register\<close> and \<^verbatim>\<open>deregister\<close>. A compiled pattern is identified by its text; the
  dict keeps insertion order, and assigning to a key that is present keeps its place.
\<close>

fun dict_set :: "(pattern \<times> func) list \<Rightarrow> pattern \<Rightarrow> func \<Rightarrow> (pattern \<times> func) list" where
  "dict_set [] k v = [(k, v)]"
| "dict_set ((k', v') # kvs) k v =
     (if k' = k then (k, v) # kvs else (k', v') # dict_set kvs k v)"

definition register :: "pattern \<Rightarrow> func \<Rightarrow> unit io" where
  "register channel_pat f = (\<lambda>(c, w).
     case f of
       Plain _ \<Rightarrow> (Inl HandlerValueError, (c, w))
     | Coroutine _ \<Rightarrow> (Inr (), (c\<lparr>handlers := dict_set (handlers c) channel_pat f\<rparr>, w)))"

definition deregister :: "pattern \<Rightarrow> unit io" where
  "deregister channel_pat = (\<lambda>(c, w).
     if channel_pat \<in> set (map fst (handlers c))
     then (Inr (), (c\<lparr>handlers := filter (\<lambda>(k, v). k \<noteq> channel_pat) (handlers c)\<rparr>, w))
     else (Inl (PatternKeyError channel_pat), (c, w)))"

section \<open>The router as a transition system\<close>

text \<open>
  The states a router can be in: it is constructed, its public methods are called, and
  the scheduled read loops make one pass at a time, ending with the \<^verbatim>\<open>finally\<close> block
  when a pass raises.
\<close>

inductive reachable :: "env \<Rightarrow> state \<Rightarrow> bool" for env :: env where
  start: "reachable env (init key secret base data, world0)"
| do_subscribe: "reachable env st \<Longrightarrow> reachable env (snd (subscribe env channels st))"
| do_close: "reachable env st \<Longrightarrow> reachable env (snd (close env st))"
| do_register: "reachable env st \<Longrightarrow> reachable env (snd (register pat f st))"
| do_deregister: "reachable env st \<Longrightarrow> reachable env (snd (deregister pat st))"
| loop_pass: "reachable env st \<Longrightarrow> s \<in> set (loops (snd st)) \<Longrightarrow>
     consume_body env s st = (Inr u, st') \<Longrightarrow> reachable env st'"
| loop_exit: "reachable env st \<Longrightarrow> s \<in> set (loops (snd st)) \<Longrightarrow>
     consume_body env s st = (Inl e, st') \<Longrightarrow> reachable env (consume_finally s st')"

text \<open>The field that holds the connection of a class.\<close>

fun handle :: "conn_class \<Rightarrow> stream_conn \<Rightarrow> sock option" where
  "handle EventsClass c = ws c"
| "handle DataClass c = data_ws c"
| "handle FeedClass c = None"

text \<open>
  The handler calls \<^verbatim>\<open>_dispatch\<close> makes for a message with body \<open>d\<close> when no handler raises:
  one per table entry whose pattern matches, in table order.
\<close>

definition calls :: "env \<Rightarrow> string \<Rightarrow> json \<Rightarrow> (pattern \<times> func) list \<Rightarrow> event list" where
  "calls env channel d hs =
     map (\<lambda>(pat, handler). Call handler channel (cast channel d))
       (filter (\<lambda>(pat, handler). rematch env pat channel) hs)"


section \<open>Sample environments and routers\<close>

text \<open>
  A matcher for the examples: \<^verbatim>\<open>re.match\<close> restricted to the catch-all pattern and to
  patterns that are matched as literal prefixes.
\<close>

definition sample_match :: "pattern \<Rightarrow> string \<Rightarrow> bool" where
  "sample_match pat channel = (pat = ''.*'' \<or> prefix pat channel)"

text \<open>An environment where every call returns and every \<^verbatim>\<open>recv\<close> has the same outcome.\<close>

definition env_const :: "frame option \<Rightarrow> env" where
  "env_const r = \<lparr>rematch = sample_match, succeeds = (\<lambda>tr. True), received = (\<lambda>tr. r)\<rparr>"


text \<open>
  The authenticate response of a server that accepts the credentials.
\<close>

definition auth_ok_msg :: json where
  "auth_ok_msg = JObj [(''stream'', JStr ''authorization''),
                       (''data'', JObj [(''status'', JStr ''authorized'')])]"

text \<open>
  A router as \<^verbatim>\<open>__init__\<close> leaves it.
\<close>

definition router0 :: stream_conn where
  "router0 = init ''k'' ''s'' ''https://a'' ''https://d''"

text \<open>
  A router whose three connection fields are set.
\<close>

definition open_router :: stream_conn where
  "open_router = router0\<lparr>ws := Some 0, data_ws := Some 1, polygon := Some ''k''\<rparr>"

text \<open>
  A router with an open events connection and one handler, on \<open>account_updates\<close>.
\<close>

definition account_router :: stream_conn where
  "account_router = router0\<lparr>handlers := [(''account_updates'', Coroutine 1)], ws := Some 0\<rparr>"

text \<open>
  An inbound account update.
\<close>

definition account_msg :: json where
  "account_msg = JObj [(''stream'', JStr ''account_updates''),
                       (''data'', JObj [(''cash'', JStr ''100'')])]"


text \<open>
  The authenticate response of a server that rejects the credentials.
\<close>

definition denied_msg :: json where
  "denied_msg = JObj [(''stream'', JStr ''authorization''),
                      (''data'', JObj [(''status'', JStr ''unauthorized'')])]"

text \<open>
  A server that accepts the credentials only after a connect to \<open>url\<close> has been made.
\<close>

definition env_denied_unless :: "string \<Rightarrow> env" where
  "env_denied_unless url =
     \<lparr>rematch = sample_match, succeeds = (\<lambda>tr. True),
      received = (\<lambda>tr. if WsConnect url \<in> set tr then Some (Decoded auth_ok_msg)
                        else Some (Decoded denied_msg))\<rparr>"

text \<open>
  A server that rejects the credentials once a connect to \<open>url\<close> has been made.
\<close>

definition env_denied_after :: "string \<Rightarrow> env" where
  "env_denied_after url =
     \<lparr>rematch = sample_match, succeeds = (\<lambda>tr. True),
      received = (\<lambda>tr. if WsConnect url \<in> set tr then Some (Decoded denied_msg)
                        else Some (Decoded auth_ok_msg))\<rparr>"

text \<open>
  Two states that differ at most in the trace (which only grows), in the closed sockets
  and in router fields other than \<^verbatim>\<open>_data_ws\<close>.
\<close>

definition same_net :: "state \<Rightarrow> state \<Rightarrow> bool" where
  "same_net st st' =
     (data_ws (fst st') = data_ws (fst st) \<and> fresh (snd st') = fresh (snd st)
      \<and> opened (snd st') = opened (snd st) \<and> loops (snd st') = loops (snd st)
      \<and> prefix (trace (snd st)) (trace (snd st')))"

text \<open>
  What holds of the sockets in every reachable state: an opened socket is older than
  the next one and was opened for the events or the data endpoint; a socket with a
  scheduled read loop was opened by the router; the read loop of a socket opened for the
  data endpoint runs only while \<^verbatim>\<open>_data_ws\<close> holds that socket; and \<^verbatim>\<open>_data_ws\<close> only ever
  holds a socket opened for the data endpoint.
\<close>

definition router_inv :: "state \<Rightarrow> bool" where
  "router_inv st =
     ((\<forall>(s, cls) \<in> set (opened (snd st)). s < fresh (snd st) \<and> cls \<noteq> FeedClass)
      \<and> (\<forall>s \<in> set (loops (snd st)). map_of (opened (snd st)) s \<noteq> None)
      \<and> (\<forall>s \<in> set (loops (snd st)).
            map_of (opened (snd st)) s = Some DataClass \<longrightarrow> data_ws (fst st) = Some s)
      \<and> (\<forall>s. data_ws (fst st) = Some s \<longrightarrow> map_of (opened (snd st)) s = Some DataClass))"

text \<open>
  The ensure method and the endpoint of a connection class.
\<close>

fun ensure :: "env \<Rightarrow> conn_class \<Rightarrow> unit io" where
  "ensure env EventsClass = ensure_ws env"
| "ensure env DataClass = ensure_data_ws env"
| "ensure env FeedClass = ensure_nats env"

fun endpoint_of :: "conn_class \<Rightarrow> stream_conn \<Rightarrow> string" where
  "endpoint_of EventsClass c = endpoint c"
| "endpoint_of DataClass c = data_endpoint c"
| "endpoint_of FeedClass c = []"

text \<open>
  A server that accepts the credentials and then drops the connection.
\<close>

definition env_hangup :: env where
  "env_hangup =
     \<lparr>rematch = sample_match, succeeds = (\<lambda>tr. True),
      received = (\<lambda>tr. if length tr \<le> 3 then Some (Decoded auth_ok_msg) else None)\<rparr>"

text \<open>
  The state after \<^verbatim>\<open>subscribe(['trade_updates'])\<close> on a new router.
\<close>

definition events_open :: state where
  "events_open =
     (router0\<lparr>ws := Some 0\<rparr>,
      world0\<lparr>trace := [WsConnect ''wss://a/stream'', WsSend 0 (auth_req ''k'' ''s''),
                       WsRecv 0, Spawn 0, WsSend 0 (listen_req [''trade_updates''])],
             fresh := 1, opened := [(0, EventsClass)], loops := [0]\<rparr>)"

text \<open>
  The state after \<^verbatim>\<open>subscribe(['bars/AAPL'])\<close> on a new router.
\<close>

definition data_open :: state where
  "data_open =
     (router0\<lparr>ws := Some 0, data_ws := Some 0\<rparr>,
      world0\<lparr>trace := [WsConnect ''wss://d/stream'', WsSend 0 (auth_req ''k'' ''s''),
                       WsRecv 0, Spawn 0, WsSend 0 (listen_req [''bars/AAPL''])],
             fresh := 1, opened := [(0, DataClass)], loops := [0]\<rparr>)"

section \<open>Properties\<close>

text \<open>The definitions a run on a sample environment unfolds.\<close>

lemmas run_defs =
  subscribe_ws_def subscribe_data_def subscribe_nats_def
  ensure_ws_def ensure_data_ws_def ensure_nats_def router0_def init_def world0_def
  http_to_ws_def bind_def ws_connect_def connect_def ws_send_def ws_recv_json_def lift_def
  check_authorized_def log_def Let_def auth_ok_msg_def denied_msg_def dispatch_def ret_def
  spawn_def feed_call_def

lemma partition_channels_filter:
  "partition_channels cs (a, b, n) =
     (a @ filter (\<lambda>c. classify c = EventsClass) cs,
      b @ filter (\<lambda>c. classify c = DataClass) cs,
      n @ filter (\<lambda>c. classify c = FeedClass) cs)"
  by (induction cs arbitrary: a b n) (simp_all add: classify_def)

text \<open>
  Claim C6. The classifier gives every channel name exactly one class, by prefix tests
  anchored at the start of the name and taken in a fixed order: a name starting with
  \<open>Q.\<close>, \<open>T.\<close>, \<open>A.\<close> or \<open>AM.\<close> goes to the feed; otherwise a name starting with \<open>bars/\<close>,
  \<open>iex/\<close> or \<open>sip/\<close> goes to the data socket; every other name goes to the events socket.
  A feed prefix at the start wins whatever follows it, and the three lists built by
  \<^verbatim>\<open>subscribe\<close> are the requested names of each class in the requested order.
\<close>

theorem classifier_prefix_rules:
  "classify c =
     (if prefix ''Q.'' c \<or> prefix ''T.'' c \<or> prefix ''A.'' c \<or> prefix ''AM.'' c
        then FeedClass
      else if prefix ''bars/'' c \<or> prefix ''iex/'' c \<or> prefix ''sip/'' c
        then DataClass
      else EventsClass)
   \<and> classify (''Q.'' @ r) = FeedClass \<and> classify (''T.'' @ r) = FeedClass
   \<and> classify (''A.'' @ r) = FeedClass \<and> classify (''AM.'' @ r) = FeedClass
   \<and> partition_channels cs ([], [], []) =
       (filter (\<lambda>c. classify c = EventsClass) cs,
        filter (\<lambda>c. classify c = DataClass) cs,
        filter (\<lambda>c. classify c = FeedClass) cs)"
proof -
  have rules: "classify c =
     (if prefix ''Q.'' c \<or> prefix ''T.'' c \<or> prefix ''A.'' c \<or> prefix ''AM.'' c
        then FeedClass
      else if prefix ''bars/'' c \<or> prefix ''iex/'' c \<or> prefix ''sip/'' c
        then DataClass
      else EventsClass)"
    by (simp add: classify_def startswith_def nats_prefixes_def data_prefixes_def)
  have feed: "classify (''Q.'' @ r) = FeedClass \<and> classify (''T.'' @ r) = FeedClass
      \<and> classify (''A.'' @ r) = FeedClass \<and> classify (''AM.'' @ r) = FeedClass"
    by (simp add: classify_def startswith_def nats_prefixes_def)
  have part: "partition_channels cs ([], [], []) =
       (filter (\<lambda>c. classify c = EventsClass) cs,
        filter (\<lambda>c. classify c = DataClass) cs,
        filter (\<lambda>c. classify c = FeedClass) cs)"
    using partition_channels_filter [of cs "[]" "[]" "[]"] by simp
  from rules feed part show ?thesis by blast
qed

lemma dispatch_loop_ok:
  assumes d: "py_getitem msg ''data'' = Inr d"
    and ok: "\<forall>(pat, handler) \<in> set hs. rematch env pat channel \<longrightarrow>
               (\<forall>tr. succeeds env (tr @ [Call handler channel (cast channel d)]))"
  shows "dispatch_loop env channel msg hs (c, w) =
     (Inr (), (c, w\<lparr>trace := trace w @ calls env channel d hs\<rparr>))"
  using ok
proof (induction hs arbitrary: w)
  case Nil
  then show ?case by (simp add: ret_def calls_def)
next
  case (Cons ph hs)
  obtain pat handler where ph: "ph = (pat, handler)" by (cases ph)
  from Cons.prems have rest: "\<forall>(pat, handler) \<in> set hs. rematch env pat channel \<longrightarrow>
               (\<forall>tr. succeeds env (tr @ [Call handler channel (cast channel d)]))"
    by simp
  show ?case
  proof (cases "rematch env pat channel")
    case False
    with Cons.IH [OF rest, of w] ph show ?thesis by (simp add: calls_def)
  next
    case True
    with Cons.prems ph
    have here: "\<forall>tr. succeeds env (tr @ [Call handler channel (cast channel d)])"
      by simp
    with True Cons.IH [OF rest, of "log (Call handler channel (cast channel d)) w"] ph d
    show ?thesis
      by (simp add: calls_def bind_def lift_def call_handler_def log_def)
  qed
qed



lemma dispatch_loop_prefix:
  assumes d: "py_getitem msg ''data'' = Inr d"
  shows "\<exists>n. snd (dispatch_loop env channel msg hs (c, w)) =
     (c, w\<lparr>trace := trace w @ take n (calls env channel d hs)\<rparr>)"
proof (induction hs arbitrary: w)
  case Nil
  then show ?case by (simp add: ret_def calls_def)
next
  case (Cons ph hs)
  obtain pat handler where ph: "ph = (pat, handler)" by (cases ph)
  show ?case
  proof (cases "rematch env pat channel")
    case False
    with Cons.IH [of w] ph show ?thesis by (simp add: calls_def)
  next
    case True
    let ?e = "Call handler channel (cast channel d)"
    show ?thesis
    proof (cases "succeeds env (trace w @ [?e])")
      case False
      with True ph d have "snd (dispatch_loop env channel msg (ph # hs) (c, w)) =
          (c, w\<lparr>trace := trace w @ take 1 (calls env channel d (ph # hs))\<rparr>)"
        by (simp add: calls_def bind_def lift_def call_handler_def log_def)
      then show ?thesis by blast
    next
      case ok: True
      from Cons.IH [of "log ?e w"] obtain n where
        n: "snd (dispatch_loop env channel msg hs (c, log ?e w)) =
          (c, (log ?e w)\<lparr>trace := trace (log ?e w) @ take n (calls env channel d hs)\<rparr>)"
        by blast
      from True ph d ok n have "snd (dispatch_loop env channel msg (ph # hs) (c, w)) =
          (c, w\<lparr>trace := trace w @ take (Suc n) (calls env channel d (ph # hs))\<rparr>)"
        by (simp add: calls_def bind_def lift_def call_handler_def log_def)
      then show ?thesis by blast
    qed
  qed
qed



text \<open>
  Claim C8. For each connection class, when the field that holds the connection is
  already set, the ensure method returns at once and leaves the router and the world as
  they are: no transport connect, no authentication handshake, no new read loop, nothing
  added to the trace. Calling it twice in a row is the same as calling it once.
\<close>

theorem ensure_connected_idempotent:
  "(ws c \<noteq> None \<longrightarrow>
      ensure_ws env (c, w) = (Inr (), (c, w))
      \<and> bind (ensure_ws env) (\<lambda>_. ensure_ws env) (c, w) = ensure_ws env (c, w))
   \<and> (data_ws c \<noteq> None \<longrightarrow>
      ensure_data_ws env (c, w) = (Inr (), (c, w))
      \<and> bind (ensure_data_ws env) (\<lambda>_. ensure_data_ws env) (c, w) = ensure_data_ws env (c, w))
   \<and> (polygon c \<noteq> None \<longrightarrow>
      ensure_nats env (c, w) = (Inr (), (c, w))
      \<and> bind (ensure_nats env) (\<lambda>_. ensure_nats env) (c, w) = ensure_nats env (c, w))"
  by (simp add: ensure_ws_def ensure_data_ws_def ensure_nats_def bind_def)

theorem ensure_connected_idempotent_witness:
  "ws open_router \<noteq> None \<and> data_ws open_router \<noteq> None \<and> polygon open_router \<noteq> None
   \<and> ensure_ws (env_const None) (open_router, world0) = (Inr (), (open_router, world0))
   \<and> ensure_data_ws (env_const None) (open_router, world0) = (Inr (), (open_router, world0))
   \<and> ensure_nats (env_const None) (open_router, world0) = (Inr (), (open_router, world0))"
  using ensure_connected_idempotent [of open_router "env_const None" world0]
  by (simp add: open_router_def)

text \<open>
  Claim C4, on the code. An authenticate response whose data payload has no status field
  makes \<^verbatim>\<open>msg['data']['status']\<close> raise \<^verbatim>\<open>KeyError\<close>, and a data payload that is not an
  object makes it raise \<^verbatim>\<open>TypeError\<close>; neither is the \<^verbatim>\<open>ValueError\<close> that carries the
  response, which a status other than \<open>authorized\<close> does raise.
\<close>

theorem auth_response_without_status:
  "fst (ensure_ws (env_const (Some (Decoded (JObj [(''data'', JObj [])])))) (router0, world0))
     = Inl (KeyError ''status'')
   \<and> fst (ensure_data_ws (env_const (Some (Decoded (JObj [(''data'', JObj [])])))) (router0, world0))
     = Inl (KeyError ''status'')
   \<and> fst (ensure_ws (env_const (Some (Decoded (JObj [(''data'', JStr ''denied'')])))) (router0, world0))
     = Inl TypeError
   \<and> fst (ensure_ws (env_const (Some (Decoded (JObj [(''data'', JObj [(''status'', JStr ''unauthorized'')])])))) (router0, world0))
     = Inl (AuthValueError (JObj [(''data'', JObj [(''status'', JStr ''unauthorized'')])]))"
  by (simp add: ensure_ws_def ensure_data_ws_def router0_def init_def world0_def env_const_def
      bind_def ws_connect_def connect_def ws_send_def ws_recv_json_def lift_def
      check_authorized_def log_def Let_def)

text \<open>
  Claim C2, on the code. \<^verbatim>\<open>_connect\<close> assigns \<^verbatim>\<open>self._ws\<close> whichever socket it is given,
  so after a first subscription to a data channel both fields hold the data socket, and
  establishing the data connection after the events connection replaces the events
  socket in \<^verbatim>\<open>self._ws\<close> by the data socket.
\<close>

theorem data_connect_overwrites_events_socket:
  "reachable (env_const (Some (Decoded auth_ok_msg)))
      (snd (subscribe (env_const (Some (Decoded auth_ok_msg))) [''bars/AAPL''] (router0, world0)))
   \<and> ws (fst (snd (subscribe (env_const (Some (Decoded auth_ok_msg))) [''bars/AAPL'']
         (router0, world0)))) = Some 0
   \<and> data_ws (fst (snd (subscribe (env_const (Some (Decoded auth_ok_msg))) [''bars/AAPL'']
         (router0, world0)))) = Some 0
   \<and> ws (fst (snd (ensure_ws (env_const (Some (Decoded auth_ok_msg))) (router0, world0))))
       = Some 0
   \<and> ws (fst (snd (ensure_data_ws (env_const (Some (Decoded auth_ok_msg)))
         (snd (ensure_ws (env_const (Some (Decoded auth_ok_msg))) (router0, world0))))))
       = Some 1"
proof -
  let ?env = "env_const (Some (Decoded auth_ok_msg))"
  have r: "reachable ?env (snd (subscribe ?env [''bars/AAPL''] (router0, world0)))"
    unfolding router0_def by (rule do_subscribe) (rule start)
  have e1: "ensure_ws ?env (router0, world0) =
      (Inr (), (router0\<lparr>ws := Some 0\<rparr>,
         \<lparr>trace = [WsConnect ''wss://a/stream'', WsSend 0 (auth_req ''k'' ''s''), WsRecv 0, Spawn 0],
          fresh = 1, opened = [(0, EventsClass)], closed_socks = [], loops = [0],
          feed_closed = False\<rparr>))"
    by (simp add: ensure_ws_def router0_def init_def world0_def env_const_def http_to_ws_def
      bind_def ws_connect_def connect_def ws_send_def ws_recv_json_def lift_def
      check_authorized_def log_def Let_def auth_ok_msg_def dispatch_def ret_def spawn_def)
  have e2: "ws (fst (snd (ensure_data_ws ?env (snd (ensure_ws ?env (router0, world0)))))) = Some 1"
    unfolding e1
    by (simp add: ensure_data_ws_def router0_def init_def world0_def env_const_def http_to_ws_def
      bind_def ws_connect_def connect_def ws_send_def ws_recv_json_def lift_def
      check_authorized_def log_def Let_def auth_ok_msg_def dispatch_def ret_def spawn_def)
  have s1: "fst (snd (subscribe ?env [''bars/AAPL''] (router0, world0))) =
      router0\<lparr>ws := Some 0, data_ws := Some 0\<rparr>"
    by (simp add: subscribe_def subscribe_ws_def subscribe_data_def subscribe_nats_def
      startswith_def nats_prefixes_def data_prefixes_def
      ensure_data_ws_def router0_def init_def world0_def env_const_def http_to_ws_def
      bind_def ws_connect_def connect_def ws_send_def ws_recv_json_def lift_def
      check_authorized_def log_def Let_def auth_ok_msg_def dispatch_def ret_def spawn_def)
  from r e1 e2 s1 show ?thesis by simp
qed




lemma close_feed:
  "polygon c = Some k \<Longrightarrow> fst (close env (c, w)) = Inr () \<Longrightarrow>
     feed_closed (snd (snd (close env (c, w))))"
  by (auto simp add: close_def bind_def ws_close_def feed_call_def Let_def log_def
      split: option.splits prod.splits sum.splits if_splits)



lemma consume_body_dispatch:
  assumes "received env (trace w @ [WsRecv s]) = Some (Decoded msg)"
    and "py_get msg ''stream'' = Inr (JStr channel)"
  shows "consume_body env s (c, w) = dispatch env channel msg (c, log (WsRecv s) w)"
  using assms
  by (simp add: consume_body_def bind_def ws_recv_json_def lift_def log_def dispatch_key_def)

text \<open>
  Claim C9. For an inbound socket message with a str \<open>stream\<close> field and a data body,
  every handler call the read loop makes passes the entity built from the data body by
  \<^verbatim>\<open>Account\<close> when the stream is \<open>account_updates\<close> and by \<^verbatim>\<open>Entity\<close> for every other
  name; the calls go to the entries whose pattern matches, in table order, and to all of
  them when the handlers return normally.
\<close>

theorem account_updates_cast:
  assumes "received env (trace w @ [WsRecv s]) = Some (Decoded msg)"
    and "py_get msg ''stream'' = Inr (JStr channel)"
    and "py_getitem msg ''data'' = Inr d"
  shows "cast channel d = (if channel = ''account_updates'' then Account d else Entity d)
    \<and> (\<exists>n. snd (consume_body env s (c, w)) =
          (c, w\<lparr>trace := trace w @ WsRecv s #
               take n (map (\<lambda>(pat, handler). Call handler channel
                            (if channel = ''account_updates'' then Account d else Entity d))
                        (filter (\<lambda>(pat, handler). rematch env pat channel) (handlers c)))\<rparr>))
    \<and> ((\<forall>(pat, handler) \<in> set (handlers c). rematch env pat channel \<longrightarrow>
           (\<forall>tr. succeeds env (tr @ [Call handler channel (cast channel d)]))) \<longrightarrow>
         consume_body env s (c, w) =
           (Inr (), (c, w\<lparr>trace := trace w @ WsRecv s #
               map (\<lambda>(pat, handler). Call handler channel
                      (if channel = ''account_updates'' then Account d else Entity d))
                 (filter (\<lambda>(pat, handler). rematch env pat channel) (handlers c))\<rparr>)))"
proof (intro conjI impI)
  show "cast channel d = (if channel = ''account_updates'' then Account d else Entity d)"
    by (simp add: cast_def)
  from dispatch_loop_prefix [OF assms(3), of env channel "handlers c" c "log (WsRecv s) w"]
  obtain n where "snd (dispatch_loop env channel msg (handlers c) (c, log (WsRecv s) w)) =
      (c, (log (WsRecv s) w)\<lparr>trace := trace (log (WsRecv s) w) @
         take n (calls env channel d (handlers c))\<rparr>)"
    by blast
  then have "snd (consume_body env s (c, w)) =
          (c, w\<lparr>trace := trace w @ WsRecv s #
               take n (map (\<lambda>(pat, handler). Call handler channel
                            (if channel = ''account_updates'' then Account d else Entity d))
                        (filter (\<lambda>(pat, handler). rematch env pat channel) (handlers c)))\<rparr>)"
    by (simp add: consume_body_dispatch [OF assms(1,2)] dispatch_def log_def calls_def cast_def)
  then show "\<exists>n. snd (consume_body env s (c, w)) =
          (c, w\<lparr>trace := trace w @ WsRecv s #
               take n (map (\<lambda>(pat, handler). Call handler channel
                            (if channel = ''account_updates'' then Account d else Entity d))
                        (filter (\<lambda>(pat, handler). rematch env pat channel) (handlers c)))\<rparr>)"
    by blast
next
  assume "\<forall>(pat, handler) \<in> set (handlers c). rematch env pat channel \<longrightarrow>
           (\<forall>tr. succeeds env (tr @ [Call handler channel (cast channel d)]))"
  from dispatch_loop_ok [OF assms(3) this, of c "log (WsRecv s) w"]
  show "consume_body env s (c, w) =
           (Inr (), (c, w\<lparr>trace := trace w @ WsRecv s #
               map (\<lambda>(pat, handler). Call handler channel
                      (if channel = ''account_updates'' then Account d else Entity d))
                 (filter (\<lambda>(pat, handler). rematch env pat channel) (handlers c))\<rparr>))"
    by (simp add: consume_body_dispatch [OF assms(1,2)] dispatch_def log_def calls_def cast_def)
qed

theorem account_updates_cast_witness:
  "received (env_const (Some (Decoded account_msg))) (trace world0 @ [WsRecv 0])
      = Some (Decoded account_msg)
   \<and> py_get account_msg ''stream'' = Inr (JStr ''account_updates'')
   \<and> py_getitem account_msg ''data'' = Inr (JObj [(''cash'', JStr ''100'')])
   \<and> list_all (\<lambda>(pat, handler).
         rematch (env_const (Some (Decoded account_msg))) pat ''account_updates'' \<longrightarrow>
         (\<forall>tr. succeeds (env_const (Some (Decoded account_msg)))
            (tr @ [Call handler ''account_updates''
                     (cast ''account_updates'' (JObj [(''cash'', JStr ''100'')]))])))
       (handlers account_router)
   \<and> trace (snd (snd (consume_body (env_const (Some (Decoded account_msg))) 0
         (account_router, world0)))) =
       [WsRecv 0, Call (Coroutine 1) ''account_updates'' (Account (JObj [(''cash'', JStr ''100'')]))]"
proof -
  let ?env = "env_const (Some (Decoded account_msg))"
  have h1: "received ?env (trace world0 @ [WsRecv 0]) = Some (Decoded account_msg)"
    by (simp add: env_const_def)
  have h2: "py_get account_msg ''stream'' = Inr (JStr ''account_updates'')"
    by (simp add: account_msg_def)
  have h3: "py_getitem account_msg ''data'' = Inr (JObj [(''cash'', JStr ''100'')])"
    by (simp add: account_msg_def)
  from account_updates_cast [OF h1 h2 h3, of account_router] h1 h2 h3
  show ?thesis
    by (simp add: env_const_def sample_match_def account_router_def router0_def init_def
        world0_def)
qed









lemma partition_two:
  "partition_channels [''trade_updates'', ''bars/AAPL''] ([], [], []) =
     ([''trade_updates''], [''bars/AAPL''], [])"
  by (simp add: startswith_def nats_prefixes_def data_prefixes_def)

lemma partition_one:
  "partition_channels [''bars/AAPL''] ([], [], []) = ([], [''bars/AAPL''], [])"
  by (simp add: startswith_def nats_prefixes_def data_prefixes_def)

lemma denied_events:
  "subscribe_ws (env_denied_unless ''wss://d/stream'') [''trade_updates''] (router0, world0) =
     (Inl (AuthValueError denied_msg),
      (router0, world0\<lparr>trace := [WsConnect ''wss://a/stream'', WsSend 0 (auth_req ''k'' ''s''),
                                 WsRecv 0],
                       fresh := 1, opened := [(0, EventsClass)]\<rparr>))"
  by (simp add: run_defs env_denied_unless_def)

lemma denied_data_alone:
  "fst (subscribe_data (env_denied_unless ''wss://d/stream'') [''bars/AAPL''] (router0, world0))
     = Inr ()"
  by (simp add: run_defs env_denied_unless_def)

text \<open>
  Claim C1 as stated fails. The server rejects the credentials on the events socket and
  would accept them on the data socket: \<^verbatim>\<open>subscribe\<close> of an events channel and a data
  channel raises the events failure after three calls, none of them to the data endpoint,
  although the data channel alone subscribes without error in the same environment.
\<close>

theorem events_failure_skips_data:
  "fst (subscribe (env_denied_unless ''wss://d/stream'') [''trade_updates'', ''bars/AAPL'']
         (router0, world0)) = Inl (AuthValueError denied_msg)
   \<and> trace (snd (snd (subscribe (env_denied_unless ''wss://d/stream'')
         [''trade_updates'', ''bars/AAPL''] (router0, world0)))) =
       [WsConnect ''wss://a/stream'', WsSend 0 (auth_req ''k'' ''s''), WsRecv 0]
   \<and> data_endpoint router0 = ''wss://d/stream''
   \<and> fst (subscribe (env_denied_unless ''wss://d/stream'') [''bars/AAPL''] (router0, world0))
       = Inr ()"
proof -
  let ?env = "env_denied_unless ''wss://d/stream''"
  have a: "subscribe ?env [''trade_updates'', ''bars/AAPL''] (router0, world0) =
      bind (subscribe_ws ?env [''trade_updates'']) (\<lambda>_.
      bind (subscribe_data ?env [''bars/AAPL'']) (\<lambda>_. subscribe_nats ?env [])) (router0, world0)"
    by (simp only: subscribe_def partition_two prod.case)
  have b: "subscribe ?env [''bars/AAPL''] (router0, world0) =
      bind (subscribe_ws ?env []) (\<lambda>_.
      bind (subscribe_data ?env [''bars/AAPL'']) (\<lambda>_. subscribe_nats ?env [])) (router0, world0)"
    by (simp only: subscribe_def partition_one prod.case)
  have c: "fst (subscribe ?env [''bars/AAPL''] (router0, world0)) = Inr ()"
    unfolding b using denied_data_alone
    by (auto simp add: bind_def subscribe_ws_def subscribe_nats_def ret_def
        split: prod.splits sum.splits)
  have d: "data_endpoint router0 = ''wss://d/stream''"
    by (simp add: router0_def init_def http_to_ws_def)
  from a denied_events c d show ?thesis by (simp add: bind_def world0_def)
qed

text \<open>
  Claim C1, amended. \<^verbatim>\<open>subscribe\<close> runs the non-empty partitions one after another,
  events, then data, then feed, and stops at the first that fails: the failure of the
  events partition is the result and leaves the state the events partition left, so the
  data and feed partitions are not attempted; a failure of the data partition comes
  after the events partition has been processed and keeps the feed partition from being
  attempted; an empty partition does nothing.
\<close>

theorem subscribe_stops_at_first_failure:
  assumes "partition_channels channels ([], [], []) = (ws_channels, data_channels, nats_channels)"
  shows "(subscribe_ws env ws_channels st = (Inl e, st1) \<longrightarrow>
            subscribe env channels st = (Inl e, st1))
    \<and> (subscribe_ws env ws_channels st = (Inr (), st1) \<and>
        subscribe_data env data_channels st1 = (Inl e, st2) \<longrightarrow>
            subscribe env channels st = (Inl e, st2))
    \<and> (subscribe_ws env ws_channels st = (Inr (), st1) \<and>
        subscribe_data env data_channels st1 = (Inr (), st2) \<longrightarrow>
            subscribe env channels st = subscribe_nats env nats_channels st2)
    \<and> subscribe_ws env [] st = (Inr (), st)
    \<and> subscribe_data env [] st = (Inr (), st)
    \<and> subscribe_nats env [] st = (Inr (), st)"
  using assms
  by (simp add: subscribe_def bind_def subscribe_ws_def subscribe_data_def subscribe_nats_def
      ret_def)

lemma data_denied_run:
  "subscribe_ws (env_denied_after ''wss://d/stream'') [''trade_updates''] (router0, world0) =
     (Inr (),
      (router0\<lparr>ws := Some 0\<rparr>,
       world0\<lparr>trace := [WsConnect ''wss://a/stream'', WsSend 0 (auth_req ''k'' ''s''),
                        WsRecv 0, Spawn 0, WsSend 0 (listen_req [''trade_updates''])],
              fresh := 1, opened := [(0, EventsClass)], loops := [0]\<rparr>))"
  by (simp add: run_defs env_denied_after_def)

lemma data_denied_run2:
  "subscribe_data (env_denied_after ''wss://d/stream'') [''bars/AAPL'']
      (router0\<lparr>ws := Some 0\<rparr>,
       world0\<lparr>trace := [WsConnect ''wss://a/stream'', WsSend 0 (auth_req ''k'' ''s''),
                        WsRecv 0, Spawn 0, WsSend 0 (listen_req [''trade_updates''])],
              fresh := 1, opened := [(0, EventsClass)], loops := [0]\<rparr>) =
     (Inl (AuthValueError denied_msg),
      (router0\<lparr>ws := Some 0\<rparr>,
       world0\<lparr>trace := [WsConnect ''wss://a/stream'', WsSend 0 (auth_req ''k'' ''s''),
                        WsRecv 0, Spawn 0, WsSend 0 (listen_req [''trade_updates'']),
                        WsConnect ''wss://d/stream'', WsSend 1 (auth_req ''k'' ''s''), WsRecv 1],
              fresh := 2, opened := [(0, EventsClass), (1, DataClass)], loops := [0]\<rparr>))"
  by (simp add: run_defs env_denied_after_def)

theorem subscribe_stops_at_first_failure_witness:
  "partition_channels [''trade_updates'', ''bars/AAPL''] ([], [], []) =
     ([''trade_updates''], [''bars/AAPL''], [])
   \<and> subscribe_ws (env_denied_unless ''wss://d/stream'') [''trade_updates''] (router0, world0) =
       (Inl (AuthValueError denied_msg),
        (router0, world0\<lparr>trace := [WsConnect ''wss://a/stream'', WsSend 0 (auth_req ''k'' ''s''),
                                   WsRecv 0],
                         fresh := 1, opened := [(0, EventsClass)]\<rparr>))
   \<and> subscribe (env_denied_unless ''wss://d/stream'') [''trade_updates'', ''bars/AAPL'']
        (router0, world0) =
       (Inl (AuthValueError denied_msg),
        (router0, world0\<lparr>trace := [WsConnect ''wss://a/stream'', WsSend 0 (auth_req ''k'' ''s''),
                                   WsRecv 0],
                         fresh := 1, opened := [(0, EventsClass)]\<rparr>))
   \<and> fst (subscribe_ws (env_denied_after ''wss://d/stream'') [''trade_updates'']
        (router0, world0)) = Inr ()
   \<and> trace (snd (snd (subscribe (env_denied_after ''wss://d/stream'')
        [''trade_updates'', ''bars/AAPL''] (router0, world0)))) =
       [WsConnect ''wss://a/stream'', WsSend 0 (auth_req ''k'' ''s''),
        WsRecv 0, Spawn 0, WsSend 0 (listen_req [''trade_updates'']),
        WsConnect ''wss://d/stream'', WsSend 1 (auth_req ''k'' ''s''), WsRecv 1]"
  using subscribe_stops_at_first_failure [OF partition_two,
      of "env_denied_unless ''wss://d/stream''" "(router0, world0)" "AuthValueError denied_msg"
        "(router0, world0\<lparr>trace := [WsConnect ''wss://a/stream'', WsSend 0 (auth_req ''k'' ''s''),
                                   WsRecv 0],
                         fresh := 1, opened := [(0, EventsClass)]\<rparr>)"]
    subscribe_stops_at_first_failure [OF partition_two,
      of "env_denied_after ''wss://d/stream''" "(router0, world0)" "AuthValueError denied_msg"
       "(router0\<lparr>ws := Some 0\<rparr>,
       world0\<lparr>trace := [WsConnect ''wss://a/stream'', WsSend 0 (auth_req ''k'' ''s''),
                        WsRecv 0, Spawn 0, WsSend 0 (listen_req [''trade_updates''])],
              fresh := 1, opened := [(0, EventsClass)], loops := [0]\<rparr>)"
       "(router0\<lparr>ws := Some 0\<rparr>,
       world0\<lparr>trace := [WsConnect ''wss://a/stream'', WsSend 0 (auth_req ''k'' ''s''),
                        WsRecv 0, Spawn 0, WsSend 0 (listen_req [''trade_updates'']),
                        WsConnect ''wss://d/stream'', WsSend 1 (auth_req ''k'' ''s''), WsRecv 1],
              fresh := 2, opened := [(0, EventsClass), (1, DataClass)], loops := [0]\<rparr>)"]
    partition_two denied_events data_denied_run data_denied_run2
  by simp

lemma same_net_refl: "same_net st st"
  by (simp add: same_net_def)

lemma same_net_trans:
  assumes "same_net a b" and "same_net b c"
  shows "same_net a c"
proof -
  from assms have "prefix (trace (snd a)) (trace (snd b))"
    and "prefix (trace (snd b)) (trace (snd c))"
    by (simp_all add: same_net_def)
  then have "prefix (trace (snd a)) (trace (snd c))"
    by (rule prefix_order.trans)
  with assms show ?thesis by (simp add: same_net_def)
qed

lemma same_net_log: "same_net (c, w) (c, log e w)"
  by (simp add: same_net_def log_def)

lemma same_net_inv:
  assumes "router_inv st" and "same_net st st'"
  shows "router_inv st'"
proof -
  from assms(2) have eqs: "data_ws (fst st') = data_ws (fst st)"
    "fresh (snd st') = fresh (snd st)" "opened (snd st') = opened (snd st)"
    "loops (snd st') = loops (snd st)"
    by (simp_all add: same_net_def)
  from assms(1) show ?thesis unfolding router_inv_def eqs .
qed

lemma bindE:
  assumes "bind m f s = (r, s'')"
  obtains (raised) e where "m s = (Inl e, s'')" "r = Inl e"
    | (returned) a s' where "m s = (Inr a, s')" "f a s' = (r, s'')"
  using assms by (auto simp: bind_def split: prod.splits sum.splits)

lemma call_handler_frame:
  "call_handler env h ch ent (c, w) = (r, st') \<Longrightarrow> st' = (c, log (Call h ch ent) w)"
  by (auto simp: call_handler_def Let_def split: if_splits)

lemma dispatch_loop_frame:
  "dispatch_loop env ch msg hs (c, w) = (r, st') \<Longrightarrow> same_net (c, w) st'"
proof (induction hs arbitrary: w)
  case Nil
  then show ?case by (simp add: ret_def same_net_refl)
next
  case (Cons ph hs)
  obtain pat handler where ph: "ph = (pat, handler)" by (cases ph)
  show ?case
  proof (cases "rematch env pat ch")
    case False
    with Cons ph show ?thesis by simp
  next
    case True
    with Cons.prems ph have b: "bind (lift (py_getitem msg ''data'')) (\<lambda>d.
           bind (call_handler env handler ch (cast ch d)) (\<lambda>_.
           dispatch_loop env ch msg hs)) (c, w) = (r, st')" by simp
    from b show ?thesis
    proof (cases rule: bindE)
      case (raised e)
      then show ?thesis by (simp add: lift_def same_net_refl)
    next
      case (returned d s')
      then have s': "s' = (c, w)" by (simp add: lift_def)
      from returned(2) show ?thesis
      proof (cases rule: bindE)
        case (raised e)
        with s' call_handler_frame [of env handler ch "cast ch d" c w "Inl e" st']
        show ?thesis by (simp add: same_net_log)
      next
        case (returned u s2)
        with s' call_handler_frame [of env handler ch "cast ch d" c w "Inr u" s2]
        have s2: "s2 = (c, log (Call handler ch (cast ch d)) w)" by simp
        from Cons.IH [of "log (Call handler ch (cast ch d)) w"] returned(2) s2
        have "same_net (c, log (Call handler ch (cast ch d)) w) st'" by simp
        with same_net_log [of c w] show ?thesis by (blast intro: same_net_trans)
      qed
    qed
  qed
qed

lemma dispatch_frame:
  "dispatch env ch msg (c, w) = (r, st') \<Longrightarrow> same_net (c, w) st'"
  by (simp add: dispatch_def dispatch_loop_frame)

lemma ws_send_frame:
  "ws_send env s msg (c, w) = (r, st') \<Longrightarrow> st' = (c, log (WsSend s msg) w)"
  by (auto simp: ws_send_def Let_def split: if_splits)

lemma ws_recv_json_frame:
  "ws_recv_json env s (c, w) = (r, st') \<Longrightarrow> st' = (c, log (WsRecv s) w)"
  by (auto simp: ws_recv_json_def Let_def split: option.splits frame.splits)

lemma feed_call_frame:
  "feed_call env e (c, w) = (r, st') \<Longrightarrow> st' = (c, log e w)"
  by (auto simp: feed_call_def Let_def split: if_splits)

lemma dispatch_key_frame:
  assumes "dispatch_key env stream msg (c, w) = (r, st')"
  shows "same_net (c, w) st'"
proof (cases stream)
  case (JStr channel)
  with assms have "dispatch env channel msg (c, w) = (r, st')"
    by (simp add: dispatch_key_def)
  then show ?thesis by (rule dispatch_frame)
next
  case JNull
  with assms have "st' = (c, w)" by (auto simp: dispatch_key_def split: if_splits)
  then show ?thesis by (simp add: same_net_refl)
next
  case (JBool b)
  with assms have "st' = (c, w)" by (auto simp: dispatch_key_def split: if_splits)
  then show ?thesis by (simp add: same_net_refl)
next
  case (JNum i)
  with assms have "st' = (c, w)" by (auto simp: dispatch_key_def split: if_splits)
  then show ?thesis by (simp add: same_net_refl)
next
  case (JArr xs)
  with assms have "st' = (c, w)" by (auto simp: dispatch_key_def split: if_splits)
  then show ?thesis by (simp add: same_net_refl)
next
  case (JObj kvs)
  with assms have "st' = (c, w)" by (auto simp: dispatch_key_def split: if_splits)
  then show ?thesis by (simp add: same_net_refl)
qed

lemma consume_body_frame:
  assumes "consume_body env s (c, w) = (r, st')"
  shows "same_net (c, w) st'"
proof -
  from assms have "bind (ws_recv_json env s) (\<lambda>msg.
     bind (lift (py_get msg ''stream'')) (\<lambda>stream.
     if stream \<noteq> JNull then dispatch_key env stream msg else ret ())) (c, w) = (r, st')"
    by (simp add: consume_body_def)
  then show ?thesis
  proof (cases rule: bindE)
    case (raised e)
    with ws_recv_json_frame [of env s c w "Inl e" st'] show ?thesis
      by (simp add: same_net_log)
  next
    case (returned msg s1)
    with ws_recv_json_frame [of env s c w "Inr msg" s1]
    have s1: "s1 = (c, log (WsRecv s) w)" by simp
    from returned(2) show ?thesis
    proof (cases rule: bindE)
      case (raised e)
      with s1 have "st' = (c, log (WsRecv s) w)" by (auto simp: lift_def)
      then show ?thesis by (simp add: same_net_log)
    next
      case (returned stream s2)
      with s1 have s2: "s2 = (c, log (WsRecv s) w)" by (auto simp: lift_def)
      have "same_net (c, log (WsRecv s) w) st'"
      proof (cases "stream = JNull")
        case True
        with returned(2) s2 have "st' = (c, log (WsRecv s) w)" by (auto simp: ret_def)
        then show ?thesis by (simp add: same_net_refl)
      next
        case False
        with returned(2) s2 have "dispatch_key env stream msg (c, log (WsRecv s) w) = (r, st')"
          by simp
        then show ?thesis by (rule dispatch_key_frame)
      qed
      with same_net_log [of c w] show ?thesis by (blast intro: same_net_trans)
    qed
  qed
qed

lemma connect_shape:
  assumes "connect env s (c, w) = (r, (c', w'))"
  shows "data_ws c' = data_ws c \<and> fresh w' = fresh w \<and> opened w' = opened w
    \<and> prefix (trace w) (trace w')
    \<and> loops w' = (case r of Inl e \<Rightarrow> loops w | Inr u \<Rightarrow> loops w @ [s])"
proof -
  let ?a = "WsSend s (auth_req (key_id c) (secret_key c))"
  let ?w1 = "log ?a w"
  let ?w2 = "log (WsRecv s) ?w1"
  have base: "same_net (c, w) (c, ?w2)" "same_net (c, w) (c, ?w1)"
    "same_net (c, w) (c\<lparr>ws := Some s\<rparr>, ?w2)"
    by (simp_all add: same_net_def log_def)
  have fin: "same_net (c, w) (c', w') \<Longrightarrow> r = Inl e \<Longrightarrow> ?thesis" for e
    by (simp add: same_net_def)
  from assms have "bind (\<lambda>(c, w). ws_send env s (auth_req (key_id c) (secret_key c)) (c, w)) (\<lambda>_.
     bind (ws_recv_json env s) (\<lambda>msg.
     bind (lift (check_authorized msg)) (\<lambda>_.
     bind (\<lambda>(c, w). (Inr (), (c\<lparr>ws := Some s\<rparr>, w))) (\<lambda>_.
     bind (dispatch env ''authorized'' msg) (\<lambda>_.
     spawn s))))) (c, w) = (r, (c', w'))"
    by (simp add: connect_def)
  then show ?thesis
  proof (cases rule: bindE)
    case (raised e)
    with ws_send_frame [of env s "auth_req (key_id c) (secret_key c)" c w "Inl e" "(c', w')"]
    have "(c', w') = (c, ?w1)" by simp
    with base(2) have "same_net (c, w) (c', w')" by simp
    from fin [OF this raised(2)] show ?thesis .
  next
    case (returned u1 s1)
    with ws_send_frame [of env s "auth_req (key_id c) (secret_key c)" c w "Inr u1" s1]
    have s1: "s1 = (c, ?w1)" by simp
    from returned(2) show ?thesis
    proof (cases rule: bindE)
      case (raised e)
      with s1 ws_recv_json_frame [of env s c ?w1 "Inl e" "(c', w')"]
      have "(c', w') = (c, ?w2)" by simp
      with base(1) have "same_net (c, w) (c', w')" by simp
    from fin [OF this raised(2)] show ?thesis .
    next
      case (returned msg s2)
      with s1 ws_recv_json_frame [of env s c ?w1 "Inr msg" s2]
      have s2: "s2 = (c, ?w2)" by simp
      from returned(2) show ?thesis
      proof (cases rule: bindE)
        case (raised e)
        with s2 have "(c', w') = (c, ?w2)" by (auto simp: lift_def)
        with base(1) have "same_net (c, w) (c', w')" by simp
    from fin [OF this raised(2)] show ?thesis .
      next
        case (returned u3 s3)
        with s2 have s3: "s3 = (c, ?w2)" by (auto simp: lift_def)
        from returned(2) show ?thesis
        proof (cases rule: bindE)
          case (raised e)
          with s3 show ?thesis by simp
        next
          case (returned u4 s4)
          with s3 have s4: "s4 = (c\<lparr>ws := Some s\<rparr>, ?w2)" by auto
          from returned(2) show ?thesis
          proof (cases rule: bindE)
            case (raised e)
            with s4 have "same_net (c\<lparr>ws := Some s\<rparr>, ?w2) (c', w')"
              by (auto dest: dispatch_frame)
            with base(3) have "same_net (c, w) (c', w')" by (rule same_net_trans)
            from fin [OF this raised(2)] show ?thesis .
          next
            case (returned u5 s5)
            with s4 have "same_net (c\<lparr>ws := Some s\<rparr>, ?w2) s5"
              by (auto dest: dispatch_frame)
            with base(3) have sn: "same_net (c, w) s5" by (rule same_net_trans)
            obtain c5 w5 where s5: "s5 = (c5, w5)" by (cases s5)
            from returned(2) s5 have "r = Inr ()" "c' = c5"
              "w' = (log (Spawn s) w5)\<lparr>loops := loops w5 @ [s]\<rparr>"
              by (auto simp: spawn_def)
            with sn s5 show ?thesis
              by (auto simp: same_net_def log_def intro: prefix_order.trans)
          qed
        qed
      qed
    qed
  qed
qed

lemma ws_connect_shape:
  "ws_connect env cls url (c, w) = (r, (c', w')) \<Longrightarrow>
     c' = c \<and> loops w' = loops w \<and> trace w' = trace w @ [WsConnect url]
     \<and> (case r of
          Inl e \<Rightarrow> fresh w' = fresh w \<and> opened w' = opened w
        | Inr s \<Rightarrow> s = fresh w \<and> fresh w' = Suc (fresh w)
            \<and> opened w' = opened w @ [(fresh w, cls)])"
  by (auto simp: ws_connect_def Let_def log_def split: if_splits)

lemma map_of_snoc:
  "map_of (xs @ [(k, v)]) x =
     (case map_of xs x of Some y \<Rightarrow> Some y | None \<Rightarrow> if x = k then Some v else None)"
  by (induction xs) auto

lemma fresh_unopened:
  assumes "router_inv (c, w)"
  shows "map_of (opened w) (fresh w) = None"
proof -
  from assms have "\<forall>(s, cls) \<in> set (opened w). s < fresh w"
    by (auto simp: router_inv_def)
  then have "fresh w \<notin> fst ` set (opened w)" by force
  then show ?thesis by (simp add: map_of_eq_None_iff)
qed

lemma inv_parts:
  "router_inv (c, w) =
     ((\<forall>(s, cls) \<in> set (opened w). s < fresh w \<and> cls \<noteq> FeedClass)
      \<and> (\<forall>s \<in> set (loops w). map_of (opened w) s \<noteq> None)
      \<and> (\<forall>s \<in> set (loops w). map_of (opened w) s = Some DataClass \<longrightarrow> data_ws c = Some s)
      \<and> (\<forall>s. data_ws c = Some s \<longrightarrow> map_of (opened w) s = Some DataClass))"
  by (simp add: router_inv_def)

lemma inv_open:
  assumes inv: "router_inv (c, w)"
    and o: "opened w' = opened w @ [(fresh w, cls)]"
    and f: "fresh w' = Suc (fresh w)"
    and cls: "cls \<noteq> FeedClass"
    and shape: "(data_ws c' = data_ws c \<and> loops w' = loops w)
      \<or> (data_ws c' = data_ws c \<and> loops w' = loops w @ [fresh w] \<and> cls = EventsClass)
      \<or> (data_ws c = None \<and> data_ws c' = Some (fresh w) \<and> loops w' = loops w @ [fresh w]
           \<and> cls = DataClass)"
  shows "router_inv (c', w')"
proof -
  note fu = fresh_unopened [OF inv]
  from inv have parts:
    "(\<forall>(s, k) \<in> set (opened w). s < fresh w \<and> k \<noteq> FeedClass)
      \<and> (\<forall>s \<in> set (loops w). map_of (opened w) s \<noteq> None)
      \<and> (\<forall>s \<in> set (loops w). map_of (opened w) s = Some DataClass \<longrightarrow> data_ws c = Some s)
      \<and> (\<forall>s. data_ws c = Some s \<longrightarrow> map_of (opened w) s = Some DataClass)"
    unfolding inv_parts .
  from parts have i1: "\<forall>(s, k) \<in> set (opened w). s < fresh w \<and> k \<noteq> FeedClass"
    by (rule conjunct1)
  from parts have i2: "\<forall>s \<in> set (loops w). map_of (opened w) s \<noteq> None"
    by (rule conjunct1 [OF conjunct2])
  from parts have i3: "\<forall>s \<in> set (loops w).
      map_of (opened w) s = Some DataClass \<longrightarrow> data_ws c = Some s"
    by (rule conjunct1 [OF conjunct2 [OF conjunct2]])
  from parts have i4: "\<forall>s. data_ws c = Some s \<longrightarrow> map_of (opened w) s = Some DataClass"
    by (rule conjunct2 [OF conjunct2 [OF conjunct2]])
  have old: "map_of (opened w') s = map_of (opened w) s" if "map_of (opened w) s \<noteq> None" for s
  proof -
    from that obtain y where "map_of (opened w) s = Some y" by blast
    then show ?thesis by (simp add: o map_of_snoc)
  qed
  have new: "map_of (opened w') (fresh w) = Some cls"
    unfolding o map_of_snoc fu by simp
  have lsub: "s = fresh w" if "s \<in> set (loops w')" "s \<notin> set (loops w)" for s
    using shape that by (elim disjE conjE) simp_all
  have j1: "\<forall>(s, k) \<in> set (opened w'). s < fresh w' \<and> k \<noteq> FeedClass"
  proof (clarify)
    fix s k assume "(s, k) \<in> set (opened w')"
    then have "(s, k) \<in> set (opened w) \<or> (s, k) = (fresh w, cls)" by (auto simp: o)
    then show "s < fresh w' \<and> k \<noteq> FeedClass"
    proof
      assume "(s, k) \<in> set (opened w)"
      with i1 have "s < fresh w \<and> k \<noteq> FeedClass" by auto
      then show ?thesis by (simp add: f)
    next
      assume "(s, k) = (fresh w, cls)"
      with cls show ?thesis by (simp add: f)
    qed
  qed
  have j2: "\<forall>s \<in> set (loops w'). map_of (opened w') s \<noteq> None"
  proof
    fix s assume s: "s \<in> set (loops w')"
    show "map_of (opened w') s \<noteq> None"
    proof (cases "s \<in> set (loops w)")
      case True
      with i2 have "map_of (opened w) s \<noteq> None" by blast
      with old [OF this] show ?thesis by simp
    next
      case False
      from lsub [OF s False] new show ?thesis by simp
    qed
  qed
  have j3: "\<forall>s \<in> set (loops w').
      map_of (opened w') s = Some DataClass \<longrightarrow> data_ws c' = Some s"
  proof (intro ballI impI)
    fix s assume s: "s \<in> set (loops w')" and d: "map_of (opened w') s = Some DataClass"
    show "data_ws c' = Some s"
    proof (cases "s \<in> set (loops w)")
      case True
      with i2 have "map_of (opened w) s \<noteq> None" by blast
      from old [OF this] d have "map_of (opened w) s = Some DataClass" by simp
      with True i3 have dc: "data_ws c = Some s" by blast
      from shape show ?thesis
      proof (elim disjE conjE)
        assume "data_ws c = None"
        with dc show ?thesis by simp
      qed (simp_all add: dc)
    next
      case False
      from lsub [OF s False] have sf: "s = fresh w" .
      with d new have c: "cls = DataClass" by simp
      from shape show ?thesis
      proof (elim disjE conjE)
        assume "loops w' = loops w"
        with s False show ?thesis by simp
      next
        assume "cls = EventsClass"
        with c show ?thesis by simp
      next
        assume "data_ws c' = Some (fresh w)"
        with sf show ?thesis by simp
      qed
    qed
  qed
  have j4: "\<forall>s. data_ws c' = Some s \<longrightarrow> map_of (opened w') s = Some DataClass"
  proof (intro allI impI)
    fix s assume d: "data_ws c' = Some s"
    show "map_of (opened w') s = Some DataClass"
    proof (cases "data_ws c' = data_ws c")
      case True
      with d i4 have m: "map_of (opened w) s = Some DataClass" by simp
      then have "map_of (opened w) s \<noteq> None" by simp
      from old [OF this] m show ?thesis by simp
    next
      case False
      from shape have "data_ws c' = Some (fresh w) \<and> cls = DataClass"
      proof (elim disjE conjE)
        assume "data_ws c' = data_ws c"
        with False show ?thesis by simp
      next
        assume "data_ws c' = data_ws c"
        with False show ?thesis by simp
      next
        assume "data_ws c' = Some (fresh w)" "cls = DataClass"
        then show ?thesis by simp
      qed
      with d new show ?thesis by simp
    qed
  qed
  show ?thesis unfolding inv_parts by (intro conjI j1 j2 j3 j4)
qed

lemma open_and_connect_inv:
  assumes inv: "router_inv (c, w)"
    and run: "bind (ws_connect env cls url) (\<lambda>s.
              bind (connect env s) (\<lambda>_.
              (\<lambda>(c, w). (Inr (), (upd s c, w))))) (c, w) = (r, (c', w'))"
    and kind: "(cls = EventsClass \<and> (\<forall>s c. data_ws (upd s c) = data_ws c))
      \<or> (cls = DataClass \<and> data_ws c = None \<and> (\<forall>s c. data_ws (upd s c) = Some s))"
  shows "router_inv (c', w')"
proof -
  from kind have cls: "cls \<noteq> FeedClass" by auto
  from run show ?thesis
  proof (cases rule: bindE)
    case (raised e)
    from ws_connect_shape [OF raised(1)] have "same_net (c, w) (c', w')"
      by (simp add: same_net_def)
    with inv show ?thesis by (rule same_net_inv)
  next
    case (returned s s1)
    obtain c1 w1 where s1: "s1 = (c1, w1)" by (cases s1)
    from ws_connect_shape [of env cls url c w "Inr s" c1 w1] returned(1) s1
    have a: "c1 = c" "loops w1 = loops w" "s = fresh w" "fresh w1 = Suc (fresh w)"
      "opened w1 = opened w @ [(fresh w, cls)]"
      by simp_all
    from returned(2) show ?thesis
    proof (cases rule: bindE)
      case (raised e)
      from connect_shape [of env s c1 w1 "Inl e" c' w'] raised(1) s1
      have b: "data_ws c' = data_ws c1" "fresh w' = fresh w1" "opened w' = opened w1"
        "loops w' = loops w1"
        by simp_all
      show ?thesis
      proof (rule inv_open [OF inv _ _ cls])
        show "opened w' = opened w @ [(fresh w, cls)]" by (simp add: a b)
        show "fresh w' = Suc (fresh w)" by (simp add: a b)
        show "(data_ws c' = data_ws c \<and> loops w' = loops w)
          \<or> (data_ws c' = data_ws c \<and> loops w' = loops w @ [fresh w] \<and> cls = EventsClass)
          \<or> (data_ws c = None \<and> data_ws c' = Some (fresh w) \<and> loops w' = loops w @ [fresh w]
               \<and> cls = DataClass)"
          by (simp add: a b)
      qed
    next
      case (returned u s2)
      obtain c2 w2 where s2: "s2 = (c2, w2)" by (cases s2)
      from connect_shape [of env s c1 w1 "Inr u" c2 w2] returned(1) s1 s2
      have b: "data_ws c2 = data_ws c1" "fresh w2 = fresh w1" "opened w2 = opened w1"
        "loops w2 = loops w1 @ [s]"
        by simp_all
      from returned(2) s2 have fin: "c' = upd s c2" "w' = w2" by simp_all
      show ?thesis
      proof (rule inv_open [OF inv _ _ cls])
        show "opened w' = opened w @ [(fresh w, cls)]" by (simp add: a b fin)
        show "fresh w' = Suc (fresh w)" by (simp add: a b fin)
        from kind show "(data_ws c' = data_ws c \<and> loops w' = loops w)
          \<or> (data_ws c' = data_ws c \<and> loops w' = loops w @ [fresh w] \<and> cls = EventsClass)
          \<or> (data_ws c = None \<and> data_ws c' = Some (fresh w) \<and> loops w' = loops w @ [fresh w]
               \<and> cls = DataClass)"
        proof
          assume "cls = EventsClass \<and> (\<forall>s c. data_ws (upd s c) = data_ws c)"
          then show ?thesis by (simp add: a b fin)
        next
          assume "cls = DataClass \<and> data_ws c = None \<and> (\<forall>s c. data_ws (upd s c) = Some s)"
          then show ?thesis by (simp add: a b fin)
        qed
      qed
    qed
  qed
qed

lemma ensure_ws_inv:
  assumes inv: "router_inv (c, w)" and run: "ensure_ws env (c, w) = (r, (c', w'))"
  shows "router_inv (c', w')"
proof (cases "ws c = None")
  case False
  with run have "(c', w') = (c, w)" by (auto simp: ensure_ws_def)
  with inv show ?thesis by simp
next
  case True
  with run have "bind (ws_connect env EventsClass (endpoint c)) (\<lambda>s.
              bind (connect env s) (\<lambda>_.
              (\<lambda>(c, w). (Inr (), ((\<lambda>s c. c\<lparr>ws := Some s\<rparr>) s c, w))))) (c, w) = (r, (c', w'))"
    by (simp add: ensure_ws_def)
  from open_and_connect_inv [OF inv this] show ?thesis by simp
qed

lemma ensure_data_ws_inv:
  assumes inv: "router_inv (c, w)" and run: "ensure_data_ws env (c, w) = (r, (c', w'))"
  shows "router_inv (c', w')"
proof (cases "data_ws c = None")
  case False
  with run have "(c', w') = (c, w)" by (auto simp: ensure_data_ws_def)
  with inv show ?thesis by simp
next
  case True
  with run have "bind (ws_connect env DataClass (data_endpoint c)) (\<lambda>s.
              bind (connect env s) (\<lambda>_.
              (\<lambda>(c, w). (Inr (), ((\<lambda>s c. c\<lparr>data_ws := Some s\<rparr>) s c, w))))) (c, w)
            = (r, (c', w'))"
    by (simp add: ensure_data_ws_def)
  from open_and_connect_inv [OF inv this] True show ?thesis by simp
qed

lemma subscribe_ws_inv:
  assumes inv: "router_inv st" and run: "subscribe_ws env chs st = (r, st')"
  shows "router_inv st'"
proof (cases "length chs > 0")
  case False
  with run have "st' = st" by (auto simp: subscribe_ws_def ret_def)
  with inv show ?thesis by simp
next
  case True
  with run have "bind (ensure_ws env) (\<lambda>_. (\<lambda>(c, w).
             case ws c of
               None \<Rightarrow> (Inl AttributeError, (c, w))
             | Some s \<Rightarrow> ws_send env s (listen_req chs) (c, w))) st = (r, st')"
    by (simp add: subscribe_ws_def)
  then show ?thesis
  proof (cases rule: bindE)
    case (raised e)
    with inv ensure_ws_inv [of "fst st" "snd st" env "Inl e" "fst st'" "snd st'"]
    show ?thesis by simp
  next
    case (returned u s1)
    with inv ensure_ws_inv [of "fst st" "snd st" env "Inr u" "fst s1" "snd s1"]
    have i1: "router_inv s1" by simp
    obtain c1 w1 where s1: "s1 = (c1, w1)" by (cases s1)
    show ?thesis
    proof (cases "ws c1")
      case None
      with returned(2) s1 have "st' = s1" by auto
      with i1 show ?thesis by simp
    next
      case (Some s)
      with returned(2) s1 have "ws_send env s (listen_req chs) (c1, w1) = (r, st')" by simp
      from ws_send_frame [OF this] have "same_net s1 st'"
        by (simp add: s1 same_net_log)
      with i1 show ?thesis by (rule same_net_inv)
    qed
  qed
qed

lemma subscribe_data_inv:
  assumes inv: "router_inv st" and run: "subscribe_data env chs st = (r, st')"
  shows "router_inv st'"
proof (cases "length chs > 0")
  case False
  with run have "st' = st" by (auto simp: subscribe_data_def ret_def)
  with inv show ?thesis by simp
next
  case True
  with run have "bind (ensure_data_ws env) (\<lambda>_. (\<lambda>(c, w).
             case data_ws c of
               None \<Rightarrow> (Inl AttributeError, (c, w))
             | Some s \<Rightarrow> ws_send env s (listen_req chs) (c, w))) st = (r, st')"
    by (simp add: subscribe_data_def)
  then show ?thesis
  proof (cases rule: bindE)
    case (raised e)
    with inv ensure_data_ws_inv [of "fst st" "snd st" env "Inl e" "fst st'" "snd st'"]
    show ?thesis by simp
  next
    case (returned u s1)
    with inv ensure_data_ws_inv [of "fst st" "snd st" env "Inr u" "fst s1" "snd s1"]
    have i1: "router_inv s1" by simp
    obtain c1 w1 where s1: "s1 = (c1, w1)" by (cases s1)
    show ?thesis
    proof (cases "data_ws c1")
      case None
      with returned(2) s1 have "st' = s1" by auto
      with i1 show ?thesis by simp
    next
      case (Some s)
      with returned(2) s1 have "ws_send env s (listen_req chs) (c1, w1) = (r, st')" by simp
      from ws_send_frame [OF this] have "same_net s1 st'"
        by (simp add: s1 same_net_log)
      with i1 show ?thesis by (rule same_net_inv)
    qed
  qed
qed

lemma ensure_nats_frame:
  assumes "ensure_nats env (c, w) = (r, st')"
  shows "same_net (c, w) st'"
proof (cases "polygon c = None")
  case False
  with assms have "st' = (c, w)" by (auto simp: ensure_nats_def)
  then show ?thesis by (simp add: same_net_refl)
next
  case True
  let ?key = "if sublist ''staging'' (base_url c) then key_id c @ ''-staging'' else key_id c"
  from True assms have "feed_call env FeedConnect
      (c\<lparr>polygon := Some ?key\<rparr>, log (FeedRegister ''.*'') (log (FeedNew ?key) w)) = (r, st')"
    by (simp add: ensure_nats_def Let_def)
  from feed_call_frame [OF this] show ?thesis
    by (simp add: same_net_def log_def)
qed

lemma subscribe_nats_inv:
  assumes inv: "router_inv st" and run: "subscribe_nats env chs st = (r, st')"
  shows "router_inv st'"
proof (cases "length chs > 0")
  case False
  with run have "st' = st" by (auto simp: subscribe_nats_def ret_def)
  with inv show ?thesis by simp
next
  case True
  with run have "bind (ensure_nats env) (\<lambda>_. (\<lambda>(c, w).
             case polygon c of
               None \<Rightarrow> (Inl AttributeError, (c, w))
             | Some _ \<Rightarrow> feed_call env (FeedSubscribe chs) (c, w))) st = (r, st')"
    by (simp add: subscribe_nats_def)
  then show ?thesis
  proof (cases rule: bindE)
    case (raised e)
    with ensure_nats_frame [of env "fst st" "snd st" "Inl e" st']
    have "same_net st st'" by simp
    with inv show ?thesis by (rule same_net_inv)
  next
    case (returned u s1)
    with ensure_nats_frame [of env "fst st" "snd st" "Inr u" s1]
    have "same_net st s1" by simp
    with inv have i1: "router_inv s1" by (rule same_net_inv)
    obtain c1 w1 where s1: "s1 = (c1, w1)" by (cases s1)
    show ?thesis
    proof (cases "polygon c1")
      case None
      with returned(2) s1 have "st' = s1" by auto
      with i1 show ?thesis by simp
    next
      case (Some k)
      with returned(2) s1 have "feed_call env (FeedSubscribe chs) (c1, w1) = (r, st')" by simp
      from feed_call_frame [OF this] have "same_net s1 st'"
        by (simp add: s1 same_net_log)
      with i1 show ?thesis by (rule same_net_inv)
    qed
  qed
qed

lemma subscribe_inv:
  assumes inv: "router_inv st"
  shows "router_inv (snd (subscribe env channels st))"
proof -
  obtain a b n where p: "partition_channels channels ([], [], []) = (a, b, n)"
    by (cases "partition_channels channels ([], [], [])")
  obtain r st' where run: "subscribe env channels st = (r, st')"
    by (cases "subscribe env channels st")
  with p have "bind (subscribe_ws env a) (\<lambda>_.
          bind (subscribe_data env b) (\<lambda>_.
          subscribe_nats env n)) st = (r, st')"
    by (simp add: subscribe_def)
  then have "router_inv st'"
  proof (cases rule: bindE)
    case (raised e)
    from subscribe_ws_inv [OF inv raised(1)] show ?thesis .
  next
    case (returned u s1)
    from subscribe_ws_inv [OF inv returned(1)] have i1: "router_inv s1" .
    from returned(2) show ?thesis
    proof (cases rule: bindE)
      case (raised e)
      from subscribe_data_inv [OF i1 raised(1)] show ?thesis .
    next
      case (returned u2 s2)
      from subscribe_data_inv [OF i1 returned(1)] have "router_inv s2" .
      from subscribe_nats_inv [OF this returned(2)] show ?thesis .
    qed
  qed
  with run show ?thesis by simp
qed

lemma ws_close_frame:
  "ws_close s (c, w) = (r, st') \<Longrightarrow> r = Inr () \<and> same_net (c, w) st'"
  by (auto simp: ws_close_def same_net_def log_def)

lemma close_frame:
  assumes "close env st = (r, st')"
  shows "same_net st st'"
proof -
  let ?close_ws = "\<lambda>(c, w). case ws c of None \<Rightarrow> (Inr (), (c, w)) | Some s \<Rightarrow> ws_close s (c, w)"
  let ?close_data = "\<lambda>(c, w). case data_ws c of None \<Rightarrow> (Inr (), (c, w))
        | Some s \<Rightarrow> ws_close s (c, w)"
  let ?close_feed = "\<lambda>(c, w). case polygon c of
        None \<Rightarrow> (Inr (), (c, w))
      | Some _ \<Rightarrow>
          (case feed_call env FeedClose (c, w) of
             (Inl e, st) \<Rightarrow> (Inl e, st)
           | (Inr u, (c', w')) \<Rightarrow> (Inr u, (c', w'\<lparr>feed_closed := True\<rparr>)))"
  have a: "same_net x y" if "?close_ws x = (q, y)" for x y and q :: "error + unit"
    using that ws_close_frame [of _ "fst x" "snd x" q y]
    by (cases x) (auto simp: same_net_refl split: option.splits)
  have b: "same_net x y" if "?close_data x = (q, y)" for x y and q :: "error + unit"
    using that ws_close_frame [of _ "fst x" "snd x" q y]
    by (cases x) (auto simp: same_net_refl split: option.splits)
  have c: "same_net x y" if "?close_feed x = (q, y)" for x y and q :: "error + unit"
  proof (cases "polygon (fst x)")
    case None
    with that have "y = x" by (cases x) auto
    then show ?thesis by (simp add: same_net_refl)
  next
    case (Some k)
    obtain q1 c1 w1 where f: "feed_call env FeedClose (fst x, snd x) = (q1, (c1, w1))"
      by (cases "feed_call env FeedClose (fst x, snd x)") auto
    from feed_call_frame [OF f] have cw: "c1 = fst x" "w1 = log FeedClose (snd x)" by simp_all
    from that Some f have "y = (c1, w1) \<or> y = (c1, w1\<lparr>feed_closed := True\<rparr>)"
      by (cases x; cases q1) auto
    with cw show ?thesis by (auto simp: same_net_def log_def)
  qed
  from assms have "bind ?close_ws (\<lambda>_. bind ?close_data (\<lambda>_. ?close_feed)) st = (r, st')"
    by (simp add: close_def)
  then show ?thesis
  proof (cases rule: bindE)
    case (raised e)
    from a [OF raised(1)] show ?thesis .
  next
    case (returned u s1)
    from a [OF returned(1)] have 1: "same_net st s1" .
    from returned(2) show ?thesis
    proof (cases rule: bindE)
      case (raised e)
      from b [OF raised(1)] 1 show ?thesis by (blast intro: same_net_trans)
    next
      case (returned u2 s2)
      from b [OF returned(1)] 1 have "same_net st s2" by (blast intro: same_net_trans)
      with c [OF returned(2)] show ?thesis by (blast intro: same_net_trans)
    qed
  qed
qed

lemma register_frame: "same_net st (snd (register pat f st))"
  by (cases st; cases f) (simp_all add: register_def same_net_def)

lemma deregister_frame: "same_net st (snd (deregister pat st))"
  by (cases st) (simp add: deregister_def same_net_def)

lemma consume_finally_inv:
  assumes inv: "router_inv (c, w)"
  shows "router_inv (consume_finally s (c, w))"
proof -
  from inv have parts:
    "(\<forall>(s, k) \<in> set (opened w). s < fresh w \<and> k \<noteq> FeedClass)
      \<and> (\<forall>s \<in> set (loops w). map_of (opened w) s \<noteq> None)
      \<and> (\<forall>s \<in> set (loops w). map_of (opened w) s = Some DataClass \<longrightarrow> data_ws c = Some s)
      \<and> (\<forall>s. data_ws c = Some s \<longrightarrow> map_of (opened w) s = Some DataClass)"
    unfolding inv_parts .
  from parts have i1: "\<forall>(s, k) \<in> set (opened w). s < fresh w \<and> k \<noteq> FeedClass"
    by (rule conjunct1)
  from parts have i2: "\<forall>s \<in> set (loops w). map_of (opened w) s \<noteq> None"
    by (rule conjunct1 [OF conjunct2])
  from parts have i3: "\<forall>s \<in> set (loops w).
      map_of (opened w) s = Some DataClass \<longrightarrow> data_ws c = Some s"
    by (rule conjunct1 [OF conjunct2 [OF conjunct2]])
  from parts have i4: "\<forall>s. data_ws c = Some s \<longrightarrow> map_of (opened w) s = Some DataClass"
    by (rule conjunct2 [OF conjunct2 [OF conjunct2]])
  obtain c' w' where fin: "consume_finally s (c, w) = (c', w')"
    by (cases "consume_finally s (c, w)")
  then have w': "opened w' = opened w" "fresh w' = fresh w" "loops w' = removeAll s (loops w)"
    and c': "data_ws c' = (if data_ws c = Some s then None else data_ws c)"
    by (auto simp: consume_finally_def Let_def log_def split: if_splits)
  have j1: "\<forall>(s, k) \<in> set (opened w'). s < fresh w' \<and> k \<noteq> FeedClass"
    unfolding w' by (rule i1)
  have j2: "\<forall>s \<in> set (loops w'). map_of (opened w') s \<noteq> None"
    unfolding w' using i2 by simp
  have j3: "\<forall>x \<in> set (loops w').
      map_of (opened w') x = Some DataClass \<longrightarrow> data_ws c' = Some x"
  proof (intro ballI impI)
    fix x assume x: "x \<in> set (loops w')" and d: "map_of (opened w') x = Some DataClass"
    from x have xs: "x \<noteq> s" "x \<in> set (loops w)" by (simp_all add: w')
    with d i3 have "data_ws c = Some x" by (simp add: w')
    with xs show "data_ws c' = Some x" by (simp add: c')
  qed
  have j4: "\<forall>x. data_ws c' = Some x \<longrightarrow> map_of (opened w') x = Some DataClass"
  proof (intro allI impI)
    fix x assume "data_ws c' = Some x"
    then have "data_ws c = Some x" by (simp add: c' split: if_splits)
    with i4 show "map_of (opened w') x = Some DataClass" by (simp add: w')
  qed
  show ?thesis unfolding fin inv_parts by (intro conjI j1 j2 j3 j4)
qed

lemma reachable_inv: "reachable env st \<Longrightarrow> router_inv st"
proof (induction rule: reachable.induct)
  case (start key secret base data)
  show ?case by (simp add: router_inv_def world0_def init_def)
next
  case (do_subscribe st channels)
  then show ?case by (simp add: subscribe_inv)
next
  case (do_close st)
  have "same_net st (snd (close env st))"
    by (rule close_frame [of env st "fst (close env st)"]) simp
  with do_close.IH show ?case by (rule same_net_inv)
next
  case (do_register st pat f)
  from do_register.IH register_frame show ?case by (rule same_net_inv)
next
  case (do_deregister st pat)
  from do_deregister.IH deregister_frame show ?case by (rule same_net_inv)
next
  case (loop_pass st s u st')
  from consume_body_frame [of env s "fst st" "snd st" "Inr u" st'] loop_pass.hyps
  have "same_net st st'" by simp
  with loop_pass.IH show ?case by (rule same_net_inv)
next
  case (loop_exit st s e st')
  from consume_body_frame [of env s "fst st" "snd st" "Inl e" st'] loop_exit.hyps
  have "same_net st st'" by simp
  with loop_exit.IH have "router_inv st'" by (rule same_net_inv)
  then have "router_inv (fst st', snd st')" by simp
  from consume_finally_inv [OF this, of s] show ?case by simp
qed

lemma consume_msg_exit:
  assumes "consume_msg env s n st = Some (e, st'')"
    and "reachable env st" and "s \<in> set (loops (snd st))"
  shows "\<exists>st1 st2. reachable env st1 \<and> same_net st st1
      \<and> consume_body env s st1 = (Inl e, st2) \<and> st'' = consume_finally s st2"
  using assms
proof (induction n arbitrary: st)
  case 0
  then show ?case by simp
next
  case (Suc n)
  obtain r st' where body: "consume_body env s st = (r, st')"
    by (cases "consume_body env s st")
  show ?case
  proof (cases r)
    case (Inl e')
    with Suc.prems(1) body have "e' = e" "st'' = consume_finally s st'" by simp_all
    with body Inl Suc.prems(2) same_net_refl [of st] show ?thesis by blast
  next
    case (Inr u)
    with Suc.prems(1) body have run: "consume_msg env s n st' = Some (e, st'')" by simp
    from body Inr Suc.prems(2,3) have r': "reachable env st'"
      by (blast intro: loop_pass)
    from consume_body_frame [of env s "fst st" "snd st" r st'] body
    have sn: "same_net st st'" by simp
    with Suc.prems(3) have "s \<in> set (loops (snd st'))" by (simp add: same_net_def)
    from Suc.IH [OF run r' this] obtain st1 st2 where
      "reachable env st1" "same_net st' st1" "consume_body env s st1 = (Inl e, st2)"
      "st'' = consume_finally s st2" by blast
    with sn show ?thesis by (blast intro: same_net_trans)
  qed
qed

lemma open_and_connect_trace:
  assumes run: "bind (ws_connect env cls url) (\<lambda>s.
              bind (connect env s) (\<lambda>_.
              (\<lambda>(c, w). (Inr (), (upd s c, w))))) (c, w) = (r, (c', w'))"
  shows "\<exists>T. trace w' = trace w @ WsConnect url # T"
  using run
proof (cases rule: bindE)
  case (raised e)
  from ws_connect_shape [OF raised(1)] show ?thesis by simp
next
  case (returned s s1)
  obtain c1 w1 where s1: "s1 = (c1, w1)" by (cases s1)
  from ws_connect_shape [of env cls url c w "Inr s" c1 w1] returned(1) s1
  have a: "trace w1 = trace w @ [WsConnect url]" by simp
  from returned(2) show ?thesis
  proof (cases rule: bindE)
    case (raised e)
    from connect_shape [of env s c1 w1 "Inl e" c' w'] raised(1) s1
    have "prefix (trace w1) (trace w')" by simp
    then obtain zs where "trace w' = trace w1 @ zs" by (auto simp: prefix_def)
    with a show ?thesis by simp
  next
    case (returned u s2)
    obtain c2 w2 where s2: "s2 = (c2, w2)" by (cases s2)
    from connect_shape [of env s c1 w1 "Inr u" c2 w2] returned(1) s1 s2
    have "prefix (trace w1) (trace w2)" by simp
    then obtain zs where "trace w2 = trace w1 @ zs" by (auto simp: prefix_def)
    moreover from returned(2) s2 have "w' = w2" by simp
    ultimately show ?thesis using a by simp
  qed
qed

lemma ensure_reconnects:
  assumes "handle cls c = None" and "cls \<noteq> FeedClass"
  shows "\<exists>T. trace (snd (snd (ensure env cls (c, w)))) =
           trace w @ WsConnect (endpoint_of cls c) # T"
proof (cases cls)
  case EventsClass
  obtain r c' w' where run: "ensure_ws env (c, w) = (r, (c', w'))"
    by (cases "ensure_ws env (c, w)") auto
  with assms EventsClass have "bind (ws_connect env EventsClass (endpoint c)) (\<lambda>s.
              bind (connect env s) (\<lambda>_.
              (\<lambda>(c, w). (Inr (), ((\<lambda>s c. c\<lparr>ws := Some s\<rparr>) s c, w))))) (c, w) = (r, (c', w'))"
    by (simp add: ensure_ws_def)
  from open_and_connect_trace [OF this] run EventsClass show ?thesis by simp
next
  case DataClass
  obtain r c' w' where run: "ensure_data_ws env (c, w) = (r, (c', w'))"
    by (cases "ensure_data_ws env (c, w)") auto
  with assms DataClass have "bind (ws_connect env DataClass (data_endpoint c)) (\<lambda>s.
              bind (connect env s) (\<lambda>_.
              (\<lambda>(c, w). (Inr (), ((\<lambda>s c. c\<lparr>data_ws := Some s\<rparr>) s c, w))))) (c, w)
            = (r, (c', w'))"
    by (simp add: ensure_data_ws_def)
  from open_and_connect_trace [OF this] run DataClass show ?thesis by simp
next
  case FeedClass
  with assms show ?thesis by simp
qed

lemma consume_finally_clears:
  assumes inv: "router_inv (c, w)" and s: "s \<in> set (loops w)"
    and fin: "consume_finally s (c, w) = (c', w')"
  shows "s \<in> set (closed_socks w') \<and> s \<notin> set (loops w')
    \<and> (\<exists>cls. map_of (opened w) s = Some cls \<and> cls \<noteq> FeedClass \<and> handle cls c' = None
          \<and> endpoint_of cls c' = endpoint_of cls c)"
proof -
  from inv have parts:
    "(\<forall>(s, k) \<in> set (opened w). s < fresh w \<and> k \<noteq> FeedClass)
      \<and> (\<forall>s \<in> set (loops w). map_of (opened w) s \<noteq> None)
      \<and> (\<forall>s \<in> set (loops w). map_of (opened w) s = Some DataClass \<longrightarrow> data_ws c = Some s)
      \<and> (\<forall>s. data_ws c = Some s \<longrightarrow> map_of (opened w) s = Some DataClass)"
    unfolding inv_parts .
  from parts have i1: "\<forall>(s, k) \<in> set (opened w). s < fresh w \<and> k \<noteq> FeedClass"
    by (rule conjunct1)
  from parts have i2: "\<forall>s \<in> set (loops w). map_of (opened w) s \<noteq> None"
    by (rule conjunct1 [OF conjunct2])
  from parts have i3: "\<forall>s \<in> set (loops w).
      map_of (opened w) s = Some DataClass \<longrightarrow> data_ws c = Some s"
    by (rule conjunct1 [OF conjunct2 [OF conjunct2]])
  from parts have i4: "\<forall>s. data_ws c = Some s \<longrightarrow> map_of (opened w) s = Some DataClass"
    by (rule conjunct2 [OF conjunct2 [OF conjunct2]])
  from i2 s obtain cls where cls: "map_of (opened w) s = Some cls" by blast
  then have "(s, cls) \<in> set (opened w)" by (rule map_of_SomeD)
  with i1 have nf: "cls \<noteq> FeedClass" by auto
  from fin have w': "closed_socks w' = s # closed_socks w" "loops w' = removeAll s (loops w)"
    by (auto simp: consume_finally_def Let_def log_def split: if_splits)
  have h: "handle cls c' = None \<and> endpoint_of cls c' = endpoint_of cls c"
  proof (cases cls)
    case EventsClass
    have "data_ws c \<noteq> Some s"
    proof
      assume "data_ws c = Some s"
      with i4 have "map_of (opened w) s = Some DataClass" by blast
      with cls EventsClass show False by simp
    qed
    with fin have "c' = c\<lparr>ws := None\<rparr>" by (auto simp: consume_finally_def Let_def)
    with EventsClass show ?thesis by simp
  next
    case DataClass
    with cls s i3 have "data_ws c = Some s" by blast
    with fin have "c' = c\<lparr>data_ws := None\<rparr>" by (auto simp: consume_finally_def Let_def)
    with DataClass show ?thesis by simp
  next
    case FeedClass
    with nf show ?thesis by simp
  qed
  from w' cls nf h show ?thesis by simp
qed

text \<open>
  Claim C3. In every reachable state, when the read loop of an open socket ends with an
  exception, the \<^verbatim>\<open>finally\<close> block has closed the socket, the loop is gone, and the
  connection field of the class the socket was opened for (\<^verbatim>\<open>_ws\<close> for the events
  endpoint, \<^verbatim>\<open>_data_ws\<close> for the data endpoint) is \<^verbatim>\<open>None\<close>, so the next ensure call of
  that class starts with a transport connect to its endpoint. A receive failure (which
  is how the end of the stream shows) and an undecodable payload both end the loop on
  the pass where they occur.
\<close>

theorem read_loop_exit_clears_handle:
  assumes "reachable env (c, w)" and "s \<in> set (loops w)"
    and "consume_msg env s n (c, w) = Some (e, (c', w'))"
  shows "s \<in> set (closed_socks w') \<and> s \<notin> set (loops w')
    \<and> (\<exists>cls. map_of (opened w) s = Some cls \<and> (cls = EventsClass \<or> cls = DataClass)
          \<and> handle cls c' = None
          \<and> (\<exists>T. trace (snd (snd (ensure env' cls (c', w')))) =
                 trace w' @ WsConnect (endpoint_of cls c') # T))
    \<and> (received env (trace w @ [WsRecv s]) = None \<longrightarrow>
          consume_msg env s (Suc m) (c, w) =
            Some (RecvError, consume_finally s (c, log (WsRecv s) w)))
    \<and> (received env (trace w @ [WsRecv s]) = Some Undecodable \<longrightarrow>
          consume_msg env s (Suc m) (c, w) =
            Some (DecodeError, consume_finally s (c, log (WsRecv s) w)))"
proof -
  from consume_msg_exit [OF assms(3,1)] assms(2) obtain st1 st2 where
    r1: "reachable env st1" and sn1: "same_net (c, w) st1"
    and body: "consume_body env s st1 = (Inl e, st2)"
    and fin: "(c', w') = consume_finally s st2"
    by auto
  from consume_body_frame [of env s "fst st1" "snd st1" "Inl e" st2] body
  have sn2: "same_net st1 st2" by simp
  from sn1 sn2 have sn: "same_net (c, w) st2" by (rule same_net_trans)
  from reachable_inv [OF r1] sn2 have "router_inv st2" by (rule same_net_inv)
  then have inv2: "router_inv (fst st2, snd st2)" by simp
  from sn assms(2) have s2: "s \<in> set (loops (snd st2))" by (simp add: same_net_def)
  from fin have "consume_finally s (fst st2, snd st2) = (c', w')" by simp
  from consume_finally_clears [OF inv2 s2 this] obtain cls where
    a: "s \<in> set (closed_socks w')" "s \<notin> set (loops w')"
    and cls: "map_of (opened (snd st2)) s = Some cls" "cls \<noteq> FeedClass" "handle cls c' = None"
    by blast
  from sn cls(1) have o: "map_of (opened w) s = Some cls" by (simp add: same_net_def)
  from cls(2) have k: "cls = EventsClass \<or> cls = DataClass" by (cases cls) simp_all
  from ensure_reconnects [OF cls(3) cls(2), of env' w'] obtain T where
    T: "trace (snd (snd (ensure env' cls (c', w')))) =
          trace w' @ WsConnect (endpoint_of cls c') # T" by blast
  have x: "received env (trace w @ [WsRecv s]) = None \<longrightarrow>
          consume_msg env s (Suc m) (c, w) =
            Some (RecvError, consume_finally s (c, log (WsRecv s) w))"
    by (simp add: consume_body_def bind_def ws_recv_json_def Let_def log_def)
  have y: "received env (trace w @ [WsRecv s]) = Some Undecodable \<longrightarrow>
          consume_msg env s (Suc m) (c, w) =
            Some (DecodeError, consume_finally s (c, log (WsRecv s) w))"
    by (simp add: consume_body_def bind_def ws_recv_json_def Let_def log_def)
  from a o k cls(3) T x y show ?thesis by blast
qed

lemma partition_events_one:
  "partition_channels [''trade_updates''] ([], [], []) = ([''trade_updates''], [], [])"
  by (simp add: startswith_def nats_prefixes_def data_prefixes_def)

lemma events_open_run:
  "snd (subscribe env_hangup [''trade_updates''] (router0, world0)) = events_open"
proof -
  have "subscribe env_hangup [''trade_updates''] (router0, world0) =
      bind (subscribe_ws env_hangup [''trade_updates'']) (\<lambda>_.
      bind (subscribe_data env_hangup []) (\<lambda>_. subscribe_nats env_hangup [])) (router0, world0)"
    by (simp only: subscribe_def partition_events_one prod.case)
  then show ?thesis
    by (simp add: run_defs env_hangup_def events_open_def)
qed

lemma data_open_run:
  "snd (subscribe env_hangup [''bars/AAPL''] (router0, world0)) = data_open"
proof -
  have "subscribe env_hangup [''bars/AAPL''] (router0, world0) =
      bind (subscribe_ws env_hangup []) (\<lambda>_.
      bind (subscribe_data env_hangup [''bars/AAPL'']) (\<lambda>_. subscribe_nats env_hangup []))
        (router0, world0)"
    by (simp only: subscribe_def partition_one prod.case)
  then show ?thesis
    by (simp add: run_defs env_hangup_def data_open_def)
qed

lemma events_open_exit:
  "consume_msg env_hangup 0 1 events_open =
     Some (RecvError,
       (router0\<lparr>ws := None\<rparr>,
        world0\<lparr>trace := [WsConnect ''wss://a/stream'', WsSend 0 (auth_req ''k'' ''s''),
                       WsRecv 0, Spawn 0, WsSend 0 (listen_req [''trade_updates'']),
                       WsRecv 0, WsClose 0],
             fresh := 1, opened := [(0, EventsClass)], closed_socks := [0], loops := []\<rparr>))"
  by (simp add: events_open_def consume_body_def consume_finally_def router0_def init_def
      world0_def env_hangup_def bind_def ws_recv_json_def log_def Let_def)

lemma data_open_exit:
  "consume_msg env_hangup 0 1 data_open =
     Some (RecvError,
       (router0\<lparr>ws := Some 0, data_ws := None\<rparr>,
        world0\<lparr>trace := [WsConnect ''wss://d/stream'', WsSend 0 (auth_req ''k'' ''s''),
                       WsRecv 0, Spawn 0, WsSend 0 (listen_req [''bars/AAPL'']),
                       WsRecv 0, WsClose 0],
             fresh := 1, opened := [(0, DataClass)], closed_socks := [0], loops := []\<rparr>))"
  by (simp add: data_open_def consume_body_def consume_finally_def router0_def init_def
      world0_def env_hangup_def bind_def ws_recv_json_def log_def Let_def)

theorem read_loop_exit_clears_handle_witness:
  "reachable env_hangup events_open \<and> 0 \<in> set (loops (snd events_open))
   \<and> consume_msg env_hangup 0 1 events_open =
       Some (RecvError,
         (router0\<lparr>ws := None\<rparr>,
          world0\<lparr>trace := [WsConnect ''wss://a/stream'', WsSend 0 (auth_req ''k'' ''s''),
                         WsRecv 0, Spawn 0, WsSend 0 (listen_req [''trade_updates'']),
                         WsRecv 0, WsClose 0],
               fresh := 1, opened := [(0, EventsClass)], closed_socks := [0], loops := []\<rparr>))
   \<and> map_of (opened (snd events_open)) 0 = Some EventsClass
   \<and> handle EventsClass (router0\<lparr>ws := None\<rparr>) = None
   \<and> reachable env_hangup data_open \<and> 0 \<in> set (loops (snd data_open))
   \<and> consume_msg env_hangup 0 1 data_open =
       Some (RecvError,
         (router0\<lparr>ws := Some 0, data_ws := None\<rparr>,
          world0\<lparr>trace := [WsConnect ''wss://d/stream'', WsSend 0 (auth_req ''k'' ''s''),
                         WsRecv 0, Spawn 0, WsSend 0 (listen_req [''bars/AAPL'']),
                         WsRecv 0, WsClose 0],
               fresh := 1, opened := [(0, DataClass)], closed_socks := [0], loops := []\<rparr>))
   \<and> map_of (opened (snd data_open)) 0 = Some DataClass
   \<and> handle DataClass (router0\<lparr>ws := Some 0, data_ws := None\<rparr>) = None"
proof -
  have re: "reachable env_hangup events_open"
    unfolding events_open_run [symmetric] router0_def by (rule do_subscribe) (rule start)
  have rd: "reachable env_hangup data_open"
    unfolding data_open_run [symmetric] router0_def by (rule do_subscribe) (rule start)
  have le: "0 \<in> set (loops (snd events_open))" by (simp add: events_open_def world0_def)
  have ld: "0 \<in> set (loops (snd data_open))" by (simp add: data_open_def world0_def)
  note e = read_loop_exit_clears_handle [OF re [unfolded events_open_def]
      le [unfolded events_open_def snd_conv] events_open_exit [unfolded events_open_def],
      of env_hangup 0]
  note d = read_loop_exit_clears_handle [OF rd [unfolded data_open_def]
      ld [unfolded data_open_def snd_conv] data_open_exit [unfolded data_open_def],
      of env_hangup 0]
  from e d re rd le ld events_open_exit data_open_exit show ?thesis
    by (simp add: events_open_def data_open_def world0_def)
qed

end
